theory Spec2Isabelle
  imports Complex_Main "HOL-Library.Multiset"
begin

section \<open>Python numbers\<close>

text \<open>
  The fields \<open>rating\<close>, \<open>biggest_win\<close> and \<open>lowest_loss\<close> of \<^verbatim>\<open>ranker.py\<close> hold
  Python numbers, as \<^verbatim>\<open>json.load\<close> returns them: an \<^verbatim>\<open>int\<close> of any size or a \<^verbatim>\<open>float\<close>.
  A record starts with the integers 1000 and 0 and holds floats after the first recorded
  outcome.

  A float is an IEEE 754 binary64 value: finite (its value as a real number), one of the two
  infinities or not-a-number. The two zeros of binary64 are not told apart: they compare
  equal, and the program neither prints the sign of a zero into a decision nor divides by one
  without raising.

  Every arithmetic operation of binary64 returns the exact result rounded to the nearest
  representable value, ties going to the even significand: \<open>rnd\<close>. A significand has 53
  bits; the spacing of the representable values around \<open>x\<close> is \<open>2 powi quantum x\<close>, never
  finer than \<open>2 powi - 1074\<close> (gradual underflow); \<open>round_to e\<close> rounds to the nearest
  multiple of \<open>2 powi e\<close> and \<open>rhe\<close> to the nearest integer. A rounded result above the largest finite
  value is an infinity: \<open>fin\<close>.
\<close>

datatype pyfloat = Fin real | PInf | NInf | NaN

datatype pynum = PyInt int | PyFloat pyfloat

datatype py_error =
  KeyError string | OverflowError | ValueError | ZeroDivisionError | JSONDecodeError

definition rhe :: "real \<Rightarrow> int" where
  "rhe x = (let f = \<lfloor>x\<rfloor>; d = x - of_int f in
     if d < 1/2 then f else if 1/2 < d then f + 1 else if even f then f else f + 1)"

definition quantum :: "real \<Rightarrow> int" where
  "quantum x = max (\<lfloor>log 2 \<bar>x\<bar>\<rfloor> - 52) (- 1074)"

definition round_to :: "int \<Rightarrow> real \<Rightarrow> real" where
  "round_to e x = of_int (rhe (x / 2 powi e)) * 2 powi e"

definition rnd :: "real \<Rightarrow> real" where
  "rnd x = round_to (quantum x) x"

definition max_float :: real where
  "max_float = (2 ^ 53 - 1) * 2 ^ 971"

definition fin :: "real \<Rightarrow> pyfloat" where
  "fin x = (let y = rnd x in
     if max_float < y then PInf else if y < - max_float then NInf else Fin y)"

text \<open>
  Half the distance from 1 to the next float, the largest relative error of \<open>rnd\<close>; and the
  spacing of the floats around \<open>x\<close>, the unit in the last place.
\<close>

definition unit_roundoff :: real where
  "unit_roundoff = 1 / 2 ^ 53"

definition ulp :: "real \<Rightarrow> real" where
  "ulp x = 2 powi quantum x"

text \<open>The values a float can hold: \<open>m * 2 powi e\<close> with a significand of at most 53 bits.\<close>

definition is_double :: "real \<Rightarrow> bool" where
  "is_double x \<longleftrightarrow> (\<exists>m e. x = of_int m * 2 powi e \<and> \<bar>m\<bar> < 2 ^ 53 \<and> - 1074 \<le> e \<and> e \<le> 971)"

fun fneg :: "pyfloat \<Rightarrow> pyfloat" where
  "fneg (Fin a) = Fin (- a)"
| "fneg PInf = NInf"
| "fneg NInf = PInf"
| "fneg NaN = NaN"

fun fadd :: "pyfloat \<Rightarrow> pyfloat \<Rightarrow> pyfloat" where
  "fadd (Fin a) (Fin b) = fin (a + b)"
| "fadd NaN _ = NaN"
| "fadd _ NaN = NaN"
| "fadd PInf NInf = NaN"
| "fadd NInf PInf = NaN"
| "fadd PInf _ = PInf"
| "fadd _ PInf = PInf"
| "fadd NInf _ = NInf"
| "fadd _ NInf = NInf"

definition fsub :: "pyfloat \<Rightarrow> pyfloat \<Rightarrow> pyfloat" where
  "fsub a b = fadd a (fneg b)"

definition signed_inf :: "bool \<Rightarrow> pyfloat" where
  "signed_inf positive = (if positive then PInf else NInf)"

fun fmul :: "pyfloat \<Rightarrow> pyfloat \<Rightarrow> pyfloat" where
  "fmul (Fin a) (Fin b) = fin (a * b)"
| "fmul NaN _ = NaN"
| "fmul _ NaN = NaN"
| "fmul (Fin a) PInf = (if a = 0 then NaN else signed_inf (0 < a))"
| "fmul (Fin a) NInf = (if a = 0 then NaN else signed_inf (a < 0))"
| "fmul PInf (Fin b) = (if b = 0 then NaN else signed_inf (0 < b))"
| "fmul NInf (Fin b) = (if b = 0 then NaN else signed_inf (b < 0))"
| "fmul PInf PInf = PInf"
| "fmul NInf NInf = PInf"
| "fmul PInf NInf = NInf"
| "fmul NInf PInf = NInf"

text \<open>
  Python's \<^verbatim>\<open>/\<close> on floats raises \<^verbatim>\<open>ZeroDivisionError\<close> whenever the divisor is zero, before
  it looks at the dividend.
\<close>

fun fdiv :: "pyfloat \<Rightarrow> pyfloat \<Rightarrow> py_error + pyfloat" where
  "fdiv a (Fin b) =
     (if b = 0 then Inl ZeroDivisionError
      else case a of
             Fin x \<Rightarrow> Inr (fin (x / b))
           | PInf \<Rightarrow> Inr (signed_inf (0 < b))
           | NInf \<Rightarrow> Inr (signed_inf (b < 0))
           | NaN \<Rightarrow> Inr NaN)"
| "fdiv NaN _ = Inr NaN"
| "fdiv _ NaN = Inr NaN"
| "fdiv (Fin a) _ = Inr (Fin 0)"
| "fdiv _ _ = Inr NaN"

fun flt :: "pyfloat \<Rightarrow> pyfloat \<Rightarrow> bool" where
  "flt (Fin a) (Fin b) = (a < b)"
| "flt NaN _ = False"
| "flt _ NaN = False"
| "flt _ NInf = False"
| "flt NInf _ = True"
| "flt PInf _ = False"
| "flt _ PInf = True"

fun fabs :: "pyfloat \<Rightarrow> pyfloat" where
  "fabs (Fin a) = Fin \<bar>a\<bar>"
| "fabs PInf = PInf"
| "fabs NInf = PInf"
| "fabs NaN = NaN"

text \<open>\<^verbatim>\<open>int(x)\<close> cuts the fraction off, towards zero, and raises on an infinity or a NaN.\<close>

fun py_int :: "pyfloat \<Rightarrow> py_error + int" where
  "py_int (Fin x) = Inr (if 0 \<le> x then \<lfloor>x\<rfloor> else \<lceil>x\<rceil>)"
| "py_int PInf = Inl OverflowError"
| "py_int NInf = Inl OverflowError"
| "py_int NaN = Inl ValueError"

text \<open>Sequencing of steps that may raise: the first exception ends the computation.\<close>

fun and_then :: "'e + 'a \<Rightarrow> ('a \<Rightarrow> 'e + 'b) \<Rightarrow> 'e + 'b" where
  "and_then (Inl e) f = Inl e"
| "and_then (Inr v) f = f v"

text \<open>
  Integers are unbounded and their sums, differences and products exact. An integer that
  meets a float in \<^verbatim>\<open>+\<close>, \<^verbatim>\<open>-\<close>, \<^verbatim>\<open>*\<close> or \<^verbatim>\<open>/\<close> is first converted to the nearest float
  (\<open>to_float\<close>), and one too large for any float raises \<^verbatim>\<open>OverflowError\<close>. The quotient
  \<^verbatim>\<open>/\<close> of two integers is the exact quotient rounded once, \<^verbatim>\<open>OverflowError\<close> when that is
  no finite float; the quotient is a float whatever the operands are.
\<close>

definition finite_or_raise :: "pyfloat \<Rightarrow> py_error + pyfloat" where
  "finite_or_raise v = (case v of Fin x \<Rightarrow> Inr (Fin x) | _ \<Rightarrow> Inl OverflowError)"

fun to_float :: "pynum \<Rightarrow> py_error + pyfloat" where
  "to_float (PyInt n) = finite_or_raise (fin (of_int n))"
| "to_float (PyFloat v) = Inr v"

definition float_op :: "(pyfloat \<Rightarrow> pyfloat \<Rightarrow> 'a) \<Rightarrow> pynum \<Rightarrow> pynum \<Rightarrow> py_error + 'a" where
  "float_op f a b = and_then (to_float a) (\<lambda>x. and_then (to_float b) (\<lambda>y. Inr (f x y)))"

fun nadd :: "pynum \<Rightarrow> pynum \<Rightarrow> py_error + pynum" where
  "nadd (PyInt a) (PyInt b) = Inr (PyInt (a + b))"
| "nadd a b = float_op (\<lambda>x y. PyFloat (fadd x y)) a b"

fun nsub :: "pynum \<Rightarrow> pynum \<Rightarrow> py_error + pynum" where
  "nsub (PyInt a) (PyInt b) = Inr (PyInt (a - b))"
| "nsub a b = float_op (\<lambda>x y. PyFloat (fsub x y)) a b"

fun nmul :: "pynum \<Rightarrow> pynum \<Rightarrow> py_error + pynum" where
  "nmul (PyInt a) (PyInt b) = Inr (PyInt (a * b))"
| "nmul a b = float_op (\<lambda>x y. PyFloat (fmul x y)) a b"

fun ndiv :: "pynum \<Rightarrow> pynum \<Rightarrow> py_error + pyfloat" where
  "ndiv (PyInt a) (PyInt b) =
     (if b = 0 then Inl ZeroDivisionError else finite_or_raise (fin (of_int a / of_int b)))"
| "ndiv a b = and_then (to_float a) (\<lambda>x. and_then (to_float b) (\<lambda>y. fdiv x y))"

text \<open>
  Comparisons never convert: Python compares an integer and a float by their exact values.
  \<open>exact\<close> is the value of a number, an integer of any size included. The built-in
  \<^verbatim>\<open>max(a, b)\<close> returns \<open>a\<close> unless \<open>b > a\<close>.
\<close>

fun exact :: "pynum \<Rightarrow> pyfloat" where
  "exact (PyInt n) = Fin (of_int n)"
| "exact (PyFloat v) = v"

definition nlt :: "pynum \<Rightarrow> pynum \<Rightarrow> bool" where
  "nlt a b = flt (exact a) (exact b)"

definition ngt :: "pynum \<Rightarrow> pynum \<Rightarrow> bool" where
  "ngt a b = nlt b a"

definition nne :: "pynum \<Rightarrow> pynum \<Rightarrow> bool" where
  "nne a b \<longleftrightarrow> exact a = NaN \<or> exact b = NaN \<or> exact a \<noteq> exact b"

definition py_max :: "pynum \<Rightarrow> pynum \<Rightarrow> pynum" where
  "py_max a b = (if ngt b a then b else a)"

text \<open>
  \<^verbatim>\<open>math.pow(10, y)\<close> hands finite arguments to the \<^verbatim>\<open>pow\<close> of the C library and answers
  the infinite and NaN exponents itself. \<open>c_pow y\<close> stands for what the library returns for
  \<^verbatim>\<open>pow(10.0, y)\<close> at a finite \<open>y\<close> other than zero; for a zero exponent the C standard fixes
  the result 1. CPython turns an infinite result of finite arguments into
  \<^verbatim>\<open>OverflowError\<close> and a NaN into \<^verbatim>\<open>ValueError\<close>, and lets a result too small for a float
  pass as the library returns it.

  C libraries do not round \<^verbatim>\<open>pow\<close> correctly, but the usual ones stay within one unit in
  the last place of the real power: \<open>pow_accurate\<close>. An infinite result counts as
  \<open>2 powi 1024\<close>. The correctly rounding library is \<open>rounded_pow\<close>.
\<close>

fun math_pow10 :: "(real \<Rightarrow> pyfloat) \<Rightarrow> pyfloat \<Rightarrow> py_error + pyfloat" where
  "math_pow10 c_pow (Fin y) =
     (if y = 0 then Inr (Fin 1)
      else case c_pow y of
             Fin r \<Rightarrow> Inr (Fin r)
           | NaN \<Rightarrow> Inl ValueError
           | _ \<Rightarrow> Inl OverflowError)"
| "math_pow10 c_pow PInf = Inr PInf"
| "math_pow10 c_pow NInf = Inr (Fin 0)"
| "math_pow10 c_pow NaN = Inr NaN"

definition pow_accurate :: "(real \<Rightarrow> pyfloat) \<Rightarrow> bool" where
  "pow_accurate c_pow \<longleftrightarrow>
     (\<forall>y. case c_pow y of
            Fin r \<Rightarrow> 0 \<le> r \<and> r \<le> max_float \<and> \<bar>r - 10 powr y\<bar> \<le> ulp (10 powr y)
          | PInf \<Rightarrow> max_float \<le> 10 powr y
          | _ \<Rightarrow> False)"

definition rounded_pow :: "real \<Rightarrow> pyfloat" where
  "rounded_pow y = fin (10 powr y)"

text \<open>
  The numbers most statements below are about: a finite float of magnitude at most
  \<open>2 powi 1000\<close>, or an integer of magnitude below \<open>2 ^ 40\<close>, with its value \<open>val\<close>. Sums,
  differences and products by 49 of such integers are floats without rounding.
\<close>

fun ordinary :: "pynum \<Rightarrow> bool" where
  "ordinary (PyInt n) \<longleftrightarrow> \<bar>n\<bar> < 2 ^ 40"
| "ordinary (PyFloat (Fin x)) \<longleftrightarrow> is_double x \<and> \<bar>x\<bar> \<le> 2 powi 1000"
| "ordinary (PyFloat _) \<longleftrightarrow> False"

fun val :: "pynum \<Rightarrow> real" where
  "val (PyInt n) = of_int n"
| "val (PyFloat (Fin x)) = x"
| "val (PyFloat _) = 0"

section \<open>The persistence store\<close>

text \<open>
  A theme owns two files in the directory \<^verbatim>\<open>themes\<close>: the item list and the rating table.
  A file is missing, or holds a whole JSON document, or holds text that is no JSON document:
  the empty file that \<^verbatim>\<open>open(file, 'w')\<close> leaves, or a proper prefix of the text that
  \<^verbatim>\<open>json.dump\<close> writes piece by piece. JSON text itself is not modelled: \<^verbatim>\<open>json.load\<close>
  returns what \<^verbatim>\<open>json.dump\<close> was given, and raises \<^verbatim>\<open>JSONDecodeError\<close> on a file that holds
  no document. The field \<open>writes\<close> is the history of the completed \<^verbatim>\<open>json.dump\<close> calls,
  oldest first; the program never reads it.
\<close>

type_synonym item = string
type_synonym theme = string

record rating_record =
  rating :: pynum
  plays :: int
  wins :: int
  losses :: int
  date_added :: string
  biggest_win :: pynum
  lowest_loss :: pynum

type_synonym ratings = "item \<rightharpoonup> rating_record"

datatype dump = ItemsWrite theme "item list" | RatingsWrite theme ratings

datatype 'a on_disk = Missing | Partial | Whole 'a

record store =
  items_file :: "theme \<Rightarrow> item list on_disk"
  ratings_file :: "theme \<Rightarrow> ratings on_disk"
  writes :: "dump list"

definition load_items :: "store \<Rightarrow> theme \<Rightarrow> py_error + item list" where
  "load_items st theme =
     (case items_file st theme of
        Missing \<Rightarrow> Inr []
      | Partial \<Rightarrow> Inl JSONDecodeError
      | Whole items \<Rightarrow> Inr items)"

definition load_ratings :: "store \<Rightarrow> theme \<Rightarrow> py_error + ratings" where
  "load_ratings st theme =
     (case ratings_file st theme of
        Missing \<Rightarrow> Inr Map.empty
      | Partial \<Rightarrow> Inl JSONDecodeError
      | Whole r \<Rightarrow> Inr r)"



definition open_ratings :: "theme \<Rightarrow> store \<Rightarrow> store" where
  "open_ratings theme st = st\<lparr>ratings_file := (ratings_file st)(theme := Partial)\<rparr>"

definition dump_ratings :: "theme \<Rightarrow> ratings \<Rightarrow> store \<Rightarrow> store" where
  "dump_ratings theme r st =
     st\<lparr>ratings_file := (ratings_file st)(theme := Whole r),
        writes := writes st @ [RatingsWrite theme r]\<rparr>"

definition run_steps :: "(store \<Rightarrow> store) list \<Rightarrow> store \<Rightarrow> store" where
  "run_steps steps st = fold (\<lambda>step s. step s) steps st"




definition save_ratings_steps :: "theme \<Rightarrow> ratings \<Rightarrow> (store \<Rightarrow> store) list" where
  "save_ratings_steps theme r = [open_ratings theme, dump_ratings theme r]"

definition save_ratings :: "store \<Rightarrow> theme \<Rightarrow> ratings \<Rightarrow> store" where
  "save_ratings st theme r = run_steps (save_ratings_steps theme r) st"

section \<open>The rating engine\<close>

definition new_record :: "string \<Rightarrow> rating_record" where
  "new_record now =
     \<lparr>rating = PyInt 1000, plays = 0, wins = 0, losses = 0, date_added = now,
      biggest_win = PyInt 0, lowest_loss = PyInt 0\<rparr>"

text \<open>
  The loop of \<^verbatim>\<open>initialize_ratings\<close>, on the table and the flag \<^verbatim>\<open>updated\<close>.
  \<open>clock item\<close> is what \<^verbatim>\<open>datetime.now().isoformat()\<close> returns when the record of \<open>item\<close>
  is created; an item gets a record at most once in a run of the loop.
\<close>

fun init_loop :: "(item \<Rightarrow> string) \<Rightarrow> item list \<Rightarrow> ratings \<times> bool \<Rightarrow> ratings \<times> bool" where
  "init_loop clock [] (r, updated) = (r, updated)"
| "init_loop clock (i # items) (r, updated) =
     (if r i = None then init_loop clock items (r(i \<mapsto> new_record (clock i)), True)
      else init_loop clock items (r, updated))"

definition initialize_ratings ::
    "store \<Rightarrow> (item \<Rightarrow> string) \<Rightarrow> theme \<Rightarrow> item list \<Rightarrow> py_error + ratings \<times> store" where
  "initialize_ratings st clock theme items =
     and_then (load_ratings st theme) (\<lambda>r0.
       let (r, updated) = init_loop clock items (r0, False)
       in Inr (if updated then (r, save_ratings st theme r) else (r, st)))"

text \<open>
  In \<^verbatim>\<open>calculate_elo_change\<close> the literals 1, 0 and 10 meet floats only and convert
  without rounding; the difference of the ratings and its quotient by 400 are computed on the
  numbers as they come, and \<open>k\<close> is converted when it is multiplied.
\<close>

definition calculate_elo_change ::
    "(real \<Rightarrow> pyfloat) \<Rightarrow> pynum \<Rightarrow> pynum \<Rightarrow> pynum \<Rightarrow> py_error + pyfloat \<times> pyfloat" where
  "calculate_elo_change c_pow winner_rating loser_rating k =
     and_then (nsub loser_rating winner_rating) (\<lambda>d1.
     and_then (ndiv d1 (PyInt 400)) (\<lambda>x1.
     and_then (math_pow10 c_pow x1) (\<lambda>p1.
     and_then (fdiv (Fin 1) (fadd (Fin 1) p1)) (\<lambda>expected_winner.
     and_then (nsub winner_rating loser_rating) (\<lambda>d2.
     and_then (ndiv d2 (PyInt 400)) (\<lambda>x2.
     and_then (math_pow10 c_pow x2) (\<lambda>p2.
     and_then (fdiv (Fin 1) (fadd (Fin 1) p2)) (\<lambda>expected_loser.
     and_then (to_float k) (\<lambda>kf.
     Inr (fmul kf (fsub (Fin 1) expected_winner),
          fmul kf (fsub (Fin 0) expected_loser)))))))))))"

text \<open>
  The right-hand sides of the two assignments to \<^verbatim>\<open>expected_winner\<close> and
  \<^verbatim>\<open>expected_loser\<close> are one expression, applied to the two ratings in either order.
\<close>

definition expected_score :: "(real \<Rightarrow> pyfloat) \<Rightarrow> pynum \<Rightarrow> pynum \<Rightarrow> py_error + pyfloat" where
  "expected_score c_pow own other =
     and_then (nsub other own) (\<lambda>d.
     and_then (ndiv d (PyInt 400)) (\<lambda>x.
     and_then (math_pow10 c_pow x) (\<lambda>p.
     fdiv (Fin 1) (fadd (Fin 1) p))))"

text \<open>
  The statements of \<^verbatim>\<open>update_ratings\<close> after the call of \<^verbatim>\<open>calculate_elo_change\<close>. The two
  additions to a rating may raise; the assignments after them cannot. The two lookups at the
  head of \<^verbatim>\<open>update_ratings\<close> have raised \<^verbatim>\<open>KeyError\<close> for a missing key before any of this
  runs, and no key is ever removed, so every assignment finds its record.
\<close>

definition add_to_rating :: "ratings \<Rightarrow> item \<Rightarrow> pyfloat \<Rightarrow> py_error + ratings" where
  "add_to_rating r key change =
     (case r key of
        None \<Rightarrow> Inl (KeyError key)
      | Some x \<Rightarrow> and_then (nadd (rating x) (PyFloat change)) (\<lambda>v.
                   Inr (r(key \<mapsto> x\<lparr>rating := v\<rparr>))))"

definition assign :: "ratings \<Rightarrow> item \<Rightarrow> (rating_record \<Rightarrow> rating_record) \<Rightarrow> ratings" where
  "assign r key f = (case r key of Some x \<Rightarrow> r(key \<mapsto> f x) | None \<Rightarrow> r)"

definition apply_outcome ::
    "ratings \<Rightarrow> item \<Rightarrow> item \<Rightarrow> pyfloat \<Rightarrow> pyfloat \<Rightarrow> py_error + ratings" where
  "apply_outcome r0 winner loser winner_change loser_change =
     and_then (add_to_rating r0 winner winner_change) (\<lambda>r1.
     and_then (add_to_rating r1 loser loser_change) (\<lambda>r2.
     (let r3 = assign r2 winner (\<lambda>x. x\<lparr>plays := plays x + 1\<rparr>);
          r4 = assign r3 winner (\<lambda>x. x\<lparr>wins := wins x + 1\<rparr>);
          r5 = assign r4 loser (\<lambda>x. x\<lparr>plays := plays x + 1\<rparr>);
          r6 = assign r5 loser (\<lambda>x. x\<lparr>losses := losses x + 1\<rparr>);
          r7 = assign r6 winner (\<lambda>x. if ngt (PyFloat winner_change) (biggest_win x)
                                      then x\<lparr>biggest_win := PyFloat winner_change\<rparr> else x);
          r8 = assign r7 loser (\<lambda>x. if ngt (PyFloat (fabs loser_change)) (lowest_loss x)
                                     then x\<lparr>lowest_loss := PyFloat (fabs loser_change)\<rparr>
                                     else x)
      in Inr r8)))"

definition update_ratings ::
    "(real \<Rightarrow> pyfloat) \<Rightarrow> store \<Rightarrow> theme \<Rightarrow> item \<Rightarrow> item \<Rightarrow> py_error + store" where
  "update_ratings c_pow st theme winner loser =
     and_then (load_ratings st theme) (\<lambda>r.
       case r winner of
         None \<Rightarrow> Inl (KeyError winner)
       | Some w \<Rightarrow>
           (case r loser of
              None \<Rightarrow> Inl (KeyError loser)
            | Some l \<Rightarrow>
                and_then (calculate_elo_change c_pow (rating w) (rating l) (PyInt 32))
                  (\<lambda>(winner_change, loser_change).
                and_then (apply_outcome r winner loser winner_change loser_change) (\<lambda>r'.
                Inr (save_ratings st theme r')))))"

text \<open>
  A session of recorded outcomes, as the loop of \<^verbatim>\<open>ranking_mode\<close> produces it: each pair
  is (winner, loser). An exception ends the session and leaves the store as the last
  completed outcome wrote it.
\<close>

fun record_outcomes ::
    "(real \<Rightarrow> pyfloat) \<Rightarrow> store \<Rightarrow> theme \<Rightarrow> (item \<times> item) list \<Rightarrow> store \<times> py_error option" where
  "record_outcomes c_pow st theme [] = (st, None)"
| "record_outcomes c_pow st theme ((winner, loser) # rest) =
     (case update_ratings c_pow st theme winner loser of
        Inl e \<Rightarrow> (st, Some e)
      | Inr st' \<Rightarrow> record_outcomes c_pow st' theme rest)"

text \<open>
  A statistic has not decreased when it is unchanged or larger by Python's \<^verbatim>\<open><\<close>; a rating
  table is consistent when every record has as many plays as wins and losses together.
\<close>

definition not_decreased :: "pynum \<Rightarrow> pynum \<Rightarrow> bool" where
  "not_decreased old new \<longleftrightarrow> new = old \<or> nlt old new"

definition consistent :: "ratings \<Rightarrow> bool" where
  "consistent r \<longleftrightarrow> (\<forall>i x. r i = Some x \<longrightarrow> plays x = wins x + losses x)"

section \<open>The ranking view\<close>

text \<open>
  \<^verbatim>\<open>list.sort\<close> compares keys with \<^verbatim>\<open><\<close> only. With \<^verbatim>\<open>reverse=True\<close> it reverses the
  list, sorts it ascending and reverses it again. CPython sorts a list of fewer than 64
  elements in two steps. \<open>count_run\<close> measures the run the list starts with, which either
  never descends or descends strictly, and a descending run is reversed in place.
  \<open>binarysort\<close> then inserts the remaining elements one by one, each at the place that
  \<open>bisect\<close> finds in the sorted part by halving: behind the elements that are not greater.
\<close>

fun asc_run :: "('a \<Rightarrow> 'a \<Rightarrow> bool) \<Rightarrow> 'a \<Rightarrow> 'a list \<Rightarrow> nat" where
  "asc_run lt prev [] = 0"
| "asc_run lt prev (x # xs) = (if lt x prev then 0 else Suc (asc_run lt x xs))"

fun desc_run :: "('a \<Rightarrow> 'a \<Rightarrow> bool) \<Rightarrow> 'a \<Rightarrow> 'a list \<Rightarrow> nat" where
  "desc_run lt prev [] = 0"
| "desc_run lt prev (x # xs) = (if lt x prev then Suc (desc_run lt x xs) else 0)"

fun count_run :: "('a \<Rightarrow> 'a \<Rightarrow> bool) \<Rightarrow> 'a list \<Rightarrow> nat \<times> bool" where
  "count_run lt [] = (0, False)"
| "count_run lt [x] = (1, False)"
| "count_run lt (x # y # zs) =
     (if lt y x then (2 + desc_run lt y zs, True) else (2 + asc_run lt y zs, False))"

function bisect :: "('a \<Rightarrow> 'a \<Rightarrow> bool) \<Rightarrow> 'a \<Rightarrow> 'a list \<Rightarrow> nat \<Rightarrow> nat \<Rightarrow> nat" where
  "bisect lt pivot xs l r =
     (if l < r
      then (let p = l + (r - l) div 2
            in if lt pivot (xs ! p) then bisect lt pivot xs l p
               else bisect lt pivot xs (p + 1) r)
      else l)"
  by pat_completeness auto

termination bisect
  by (relation "measure (\<lambda>(lt, pivot, xs, l, r). r - l)") auto

fun binarysort :: "('a \<Rightarrow> 'a \<Rightarrow> bool) \<Rightarrow> 'a list \<Rightarrow> 'a list \<Rightarrow> 'a list" where
  "binarysort lt front [] = front"
| "binarysort lt front (pivot # rest) =
     (let l = bisect lt pivot front 0 (length front)
      in binarysort lt (take l front @ pivot # drop l front) rest)"

definition short_sort :: "('a \<Rightarrow> 'a \<Rightarrow> bool) \<Rightarrow> 'a list \<Rightarrow> 'a list" where
  "short_sort lt xs =
     (if length xs < 2 then xs
      else let (n, descending) = count_run lt xs;
               run = (if descending then rev (take n xs) else take n xs)
           in binarysort lt run (drop n xs))"

text \<open>
  A list of 64 or more elements is cut into runs that are merged. When no key is a NaN the
  keys are ordered, and the result is what every stable sort returns, here written as the
  sort by insertion from the right. How the merges treat a NaN among 64 or more keys is not
  followed: \<open>merged\<close> stands for what \<^verbatim>\<open>list.sort\<close> makes of such a list.
\<close>

fun insert_key :: "('a \<Rightarrow> 'a \<Rightarrow> bool) \<Rightarrow> 'a \<Rightarrow> 'a list \<Rightarrow> 'a list" where
  "insert_key lt x [] = [x]"
| "insert_key lt x (y # ys) =
     (if lt y x then y # insert_key lt x ys else x # y # ys)"

fun stable_sort :: "('a \<Rightarrow> 'a \<Rightarrow> bool) \<Rightarrow> 'a list \<Rightarrow> 'a list" where
  "stable_sort lt [] = []"
| "stable_sort lt (x # xs) = insert_key lt x (stable_sort lt xs)"

definition list_sort ::
    "('a list \<Rightarrow> 'a list) \<Rightarrow> ('a \<Rightarrow> pynum) \<Rightarrow> 'a list \<Rightarrow> 'a list" where
  "list_sort merged key xs =
     (let lt = (\<lambda>a b. nlt (key a) (key b))
      in if length xs < 64 then short_sort lt xs
         else if \<forall>x\<in>set xs. exact (key x) \<noteq> NaN then stable_sort lt xs
         else merged xs)"

definition sort_reverse ::
    "('a list \<Rightarrow> 'a list) \<Rightarrow> ('a \<Rightarrow> pynum) \<Rightarrow> 'a list \<Rightarrow> 'a list" where
  "sort_reverse merged key xs = rev (list_sort merged key (rev xs))"

definition rated :: "ratings \<Rightarrow> item \<Rightarrow> item \<times> pynum" where
  "rated r i = (case r i of Some x \<Rightarrow> (i, rating x) | None \<Rightarrow> (i, PyInt 1000))"

definition sorted_items ::
    "((item \<times> pynum) list \<Rightarrow> (item \<times> pynum) list) \<Rightarrow> ratings \<Rightarrow> item list
     \<Rightarrow> (item \<times> pynum) list" where
  "sorted_items merged r items = sort_reverse merged snd (map (rated r) items)"

definition dash_count :: "pynum \<Rightarrow> pynum \<Rightarrow> pynum \<Rightarrow> py_error + int" where
  "dash_count rating_range min_rating r =
     (if ngt rating_range (PyInt 0)
      then and_then (nsub r min_rating) (\<lambda>d.
           and_then (nmul (PyInt 49) d) (\<lambda>m.
           and_then (ndiv m rating_range) (\<lambda>q.
           py_int (fadd (Fin 1) q))))
      else Inr 50)"

text \<open>
  The specification's formula for the intensity,
  \<^verbatim>\<open>floor(1 + 49 * (rating - minRating) / (maxRating - minRating))\<close>, with every operation
  rounded to a float.
\<close>

definition intensity :: "real \<Rightarrow> real \<Rightarrow> real \<Rightarrow> int" where
  "intensity lo hi x = \<lfloor>rnd (1 + rnd (rnd (49 * rnd (x - lo)) / rnd (hi - lo)))\<rfloor>"

text \<open>
  An entry of the ranking as \<^verbatim>\<open>view_rankings\<close> prints it. The format \<^verbatim>\<open>{rating:.0f}\<close>
  converts the rating to a float and raises when it cannot.
\<close>

record entry =
  place :: nat
  name :: item
  dashes :: int
  shown :: pynum
  stats :: "(int \<times> int \<times> int) option"

datatype notice = NoItems | NoRankings

fun entries :: "ratings \<Rightarrow> pynum \<Rightarrow> pynum \<Rightarrow> nat \<Rightarrow> (item \<times> pynum) list
    \<Rightarrow> py_error + entry list" where
  "entries r rating_range min_rating i [] = Inr []"
| "entries r rating_range min_rating i ((it, x) # rest) =
     and_then (dash_count rating_range min_rating x) (\<lambda>n.
     and_then (to_float x) (\<lambda>printed.
     and_then (entries r rating_range min_rating (i + 1) rest) (\<lambda>es.
     Inr (\<lparr>place = i + 1, name = it, dashes = n, shown = x,
           stats = (case r it of
                      Some s \<Rightarrow> if 0 < plays s then Some (plays s, wins s, losses s) else None
                    | None \<Rightarrow> None)\<rparr> # es))))"

definition view_rankings ::
    "((item \<times> pynum) list \<Rightarrow> (item \<times> pynum) list) \<Rightarrow> store \<Rightarrow> theme
     \<Rightarrow> py_error + (notice option \<times> entry list) \<times> store" where
  "view_rankings merged st theme =
     and_then (load_items st theme) (\<lambda>items.
     and_then (load_ratings st theme) (\<lambda>r.
       if items = [] then Inr ((Some NoItems, []), st)
       else case sorted_items merged r items of
              [] \<Rightarrow> Inr ((Some NoRankings, []), st)
            | first # others \<Rightarrow>
                let max_rating = snd first;
                    min_rating = (if 1 < length (first # others)
                                  then snd (last (first # others)) else max_rating)
                in and_then (if nne max_rating min_rating then nsub max_rating min_rating
                             else Inr (PyInt 1)) (\<lambda>rating_range.
                   and_then (entries r rating_range min_rating 0 (first # others)) (\<lambda>es.
                   Inr ((None, es), st)))))"

section \<open>Example stores\<close>

text \<open>
  The store of an empty \<^verbatim>\<open>themes\<close> directory, and a theme \<^verbatim>\<open>t\<close> with the items
  \<^verbatim>\<open>X\<close> and \<^verbatim>\<open>Y\<close>, both rated 1000 and never played.
\<close>

definition fresh_store :: store where
  "fresh_store = \<lparr>items_file = (\<lambda>t. Missing), ratings_file = (\<lambda>t. Missing), writes = []\<rparr>"

definition two_items :: "pynum \<Rightarrow> pynum \<Rightarrow> store" where
  "two_items x y =
     \<lparr>items_file = (\<lambda>t. Missing)(''t'' := Whole [''X'', ''Y'']),
      ratings_file = (\<lambda>t. Missing)
         (''t'' := Whole [''X'' \<mapsto> (new_record ''d1'')\<lparr>rating := x\<rparr>,
                          ''Y'' \<mapsto> (new_record ''d2'')\<lparr>rating := y\<rparr>]),
      writes = []\<rparr>"

definition level_store :: store where
  "level_store = two_items (PyInt 1000) (PyInt 1000)"

text \<open>
  Themes whose two items are rated 200000.0 and 0.0, both the integer \<open>10 ^ 400\<close>, and the
  floats 2223559688197797 / 2^41 and 8697947291624811 / 2^43, which Python prints as
  1011.1578777458803 and 988.8421222541195.
\<close>

definition far_store :: store where
  "far_store = two_items (PyFloat (Fin 200000)) (PyFloat (Fin 0))"

definition huge_store :: store where
  "huge_store = two_items (PyInt (10 ^ 400)) (PyInt (10 ^ 400))"

definition close_store :: store where
  "close_store = two_items (PyFloat (Fin (2223559688197797 / 2 ^ 41)))
                           (PyFloat (Fin (8697947291624811 / 2 ^ 43)))"

text \<open>
  A theme with four items: \<^verbatim>\<open>A\<close> rated 800.0, \<^verbatim>\<open>B\<close> rated 1200, \<^verbatim>\<open>D\<close> rated 1200.0,
  and \<^verbatim>\<open>C\<close> without a record. A theme with the ratings 1200, 1000 and 800. A theme with
  the ratings 1.0, NaN and 2.0.
\<close>

definition three_items :: "pynum \<Rightarrow> pynum \<Rightarrow> pynum \<Rightarrow> store" where
  "three_items a b c =
     \<lparr>items_file = (\<lambda>t. Missing)(''t'' := Whole [''A'', ''B'', ''C'']),
      ratings_file = (\<lambda>t. Missing)
         (''t'' := Whole [''A'' \<mapsto> (new_record ''d1'')\<lparr>rating := a\<rparr>,
                          ''B'' \<mapsto> (new_record ''d2'')\<lparr>rating := b\<rparr>,
                          ''C'' \<mapsto> (new_record ''d3'')\<lparr>rating := c\<rparr>]),
      writes = []\<rparr>"

definition mixed_store :: store where
  "mixed_store =
     \<lparr>items_file = (\<lambda>t. Missing)(''t'' := Whole [''A'', ''B'', ''C'', ''D'']),
      ratings_file = (\<lambda>t. Missing)
         (''t'' := Whole [''A'' \<mapsto> (new_record ''d1'')\<lparr>rating := PyFloat (Fin 800)\<rparr>,
                          ''B'' \<mapsto> (new_record ''d2'')\<lparr>rating := PyInt 1200\<rparr>,
                          ''D'' \<mapsto> (new_record ''d3'')\<lparr>rating := PyFloat (Fin 1200)\<rparr>]),
      writes = []\<rparr>"

definition spread_store :: store where
  "spread_store = three_items (PyInt 1200) (PyInt 1000) (PyInt 800)"

definition nan_store :: store where
  "nan_store = three_items (PyFloat (Fin 1)) (PyFloat NaN) (PyFloat (Fin 2))"

section \<open>Properties of rounding\<close>

lemma rhe_of_int: "rhe (of_int n) = n"
  by (simp add: rhe_def)

lemma rhe_bounds: "x - 1/2 \<le> of_int (rhe x)" "of_int (rhe x) \<le> x + 1/2"
  unfolding rhe_def Let_def by (auto; linarith)+

lemma rhe_mono: "x \<le> y \<Longrightarrow> rhe x \<le> rhe y"
proof -
  assume xy: "x \<le> y"
  have fl: "\<lfloor>x\<rfloor> \<le> \<lfloor>y\<rfloor>" using xy by (rule floor_mono)
  show ?thesis
  proof (cases "\<lfloor>x\<rfloor> = \<lfloor>y\<rfloor>")
    case True
    then show ?thesis using xy unfolding rhe_def Let_def by auto
  next
    case False
    then have "\<lfloor>x\<rfloor> + 1 \<le> \<lfloor>y\<rfloor>" using fl by simp
    moreover have "rhe x \<le> \<lfloor>x\<rfloor> + 1" unfolding rhe_def Let_def by auto
    moreover have "\<lfloor>y\<rfloor> \<le> rhe y" unfolding rhe_def Let_def by auto
    ultimately show ?thesis by linarith
  qed
qed

lemma rhe_minus: "rhe (- x) = - rhe x"
proof (cases "x \<in> \<int>")
  case True
  then obtain n where "x = of_int n" by (auto elim: Ints_cases)
  then show ?thesis by (simp add: rhe_of_int flip: of_int_minus)
next
  case False
  then have ne: "of_int \<lfloor>x\<rfloor> \<noteq> x" by (metis Ints_of_int)
  then have fl: "\<lfloor>- x\<rfloor> = - \<lfloor>x\<rfloor> - 1"
    by (simp add: floor_minus ceiling_altdef)
  have lt: "of_int \<lfloor>x\<rfloor> < x" using ne of_int_floor_le[of x] by linarith
  show ?thesis unfolding rhe_def Let_def fl using lt by auto
qed

lemma pow2_pos: "0 < (2::real) powi e"
  by simp

lemma round_to_grid': "round_to e (of_int n * 2 powi e) = of_int n * 2 powi e"
  by (simp add: round_to_def rhe_of_int)

lemma pow2_split: "e \<le> j \<Longrightarrow> (2::real) powi j = of_int (2 ^ nat (j - e)) * 2 powi e"
proof -
  assume "e \<le> j"
  then have "(2::real) powi j = 2 powi (j - e) * 2 powi e"
    by (simp flip: power_int_add)
  also have "(2::real) powi (j - e) = 2 ^ nat (j - e)"
    using \<open>e \<le> j\<close> by (simp add: power_int_def)
  finally show ?thesis by simp
qed

lemma round_to_grid:
  assumes "e \<le> j"
  shows "round_to e (of_int m * 2 powi j) = of_int m * 2 powi j"
proof -
  have "of_int m * (2::real) powi j = of_int (m * 2 ^ nat (j - e)) * 2 powi e"
    using pow2_split[OF assms] by simp
  then show ?thesis by (metis round_to_grid')
qed

lemma round_to_pow2: "e \<le> j \<Longrightarrow> round_to e (2 powi j) = 2 powi j"
  using round_to_grid[of e j 1] by simp

lemma round_to_0: "round_to e 0 = 0"
  using round_to_grid'[of e 0] by simp

lemma round_to_mono: "x \<le> y \<Longrightarrow> round_to e x \<le> round_to e y"
  unfolding round_to_def
  by (intro mult_right_mono of_int_le_iff[THEN iffD2] rhe_mono divide_right_mono)
     (simp_all add: less_imp_le[OF pow2_pos])

lemma round_to_minus: "round_to e (- x) = - round_to e x"
  by (simp add: round_to_def rhe_minus)

lemma round_to_err: "\<bar>round_to e x - x\<bar> \<le> 2 powi e / 2"
proof -
  define p where "p = (2::real) powi e"
  have p: "0 < p" by (simp add: p_def pow2_pos)
  have "\<bar>of_int (rhe (x / p)) - x / p\<bar> \<le> 1 / 2"
    using rhe_bounds[of "x / p"] by linarith
  then have "\<bar>of_int (rhe (x / p)) - x / p\<bar> * p \<le> 1 / 2 * p"
    using p by (intro mult_right_mono) simp_all
  moreover have "\<bar>of_int (rhe (x / p)) - x / p\<bar> * p = \<bar>of_int (rhe (x / p)) * p - x\<bar>"
  proof -
    have "\<bar>of_int (rhe (x / p)) - x / p\<bar> * p = \<bar>(of_int (rhe (x / p)) - x / p) * p\<bar>"
      using p by (simp add: abs_mult)
    also have "(of_int (rhe (x / p)) - x / p) * p = of_int (rhe (x / p)) * p - x"
      using p by (simp add: left_diff_distrib)
    finally show ?thesis .
  qed
  ultimately have "\<bar>of_int (rhe (x / p)) * p - x\<bar> \<le> 1 / 2 * p" by (simp only:)
  then show ?thesis unfolding round_to_def p_def by simp
qed

lemma log2_bounds:
  assumes "0 < x"
  shows "2 powi \<lfloor>log 2 x\<rfloor> \<le> x" "x < 2 powi (\<lfloor>log 2 x\<rfloor> + 1)"
proof -
  have "\<lfloor>log 2 x\<rfloor> = \<lfloor>log 2 x\<rfloor>" ..
  then have "2 powr \<lfloor>log 2 x\<rfloor> \<le> x \<and> x < 2 powr (\<lfloor>log 2 x\<rfloor> + 1)"
    using assms by (subst (asm) floor_log_eq_powr_iff) simp_all
  then show "2 powi \<lfloor>log 2 x\<rfloor> \<le> x" "x < 2 powi (\<lfloor>log 2 x\<rfloor> + 1)"
    by (simp_all add: powr_real_of_int' add.commute flip: of_int_add)
qed

lemma floor_log2_eqI:
  assumes "2 powi k \<le> x" "x < 2 powi (k + 1)"
  shows "\<lfloor>log 2 x\<rfloor> = k"
proof -
  have pos: "0 < x" using assms(1) pow2_pos[of k] by linarith
  show ?thesis
    using assms pos by (simp add: floor_log_eq_powr_iff powr_real_of_int' add.commute flip: of_int_add)
qed

lemma quantum_eqI:
  assumes "2 powi k \<le> \<bar>x\<bar>" "\<bar>x\<bar> < 2 powi (k + 1)"
  shows "quantum x = max (k - 52) (- 1074)"
  using floor_log2_eqI[OF assms] by (simp add: quantum_def)

lemma quantum_minus: "quantum (- x) = quantum x"
  by (simp add: quantum_def)

lemma quantum_mono:
  assumes "0 < x" "x \<le> y"
  shows "quantum x \<le> quantum y"
proof -
  have "log 2 x \<le> log 2 y" using assms by simp
  then have "\<lfloor>log 2 x\<rfloor> \<le> \<lfloor>log 2 y\<rfloor>" by (rule floor_mono)
  then show ?thesis using assms by (simp add: quantum_def)
qed

lemma quantum_ge: "- 1074 \<le> quantum x"
  by (simp add: quantum_def)

lemma rnd_minus: "rnd (- x) = - rnd x"
  by (simp add: rnd_def quantum_minus round_to_minus)

lemma rnd_0: "rnd 0 = 0"
  by (simp add: rnd_def round_to_0)

lemma rnd_eqI:
  assumes "2 powi k \<le> \<bar>x\<bar>" "\<bar>x\<bar> < 2 powi (k + 1)"
  shows "rnd x = round_to (max (k - 52) (- 1074)) x"
  using quantum_eqI[OF assms] by (simp add: rnd_def)

lemma pow2_less_iff: "(2::real) powi a < 2 powi b \<longleftrightarrow> a < b"
proof
  assume "(2::real) powi a < 2 powi b"
  then show "a < b"
    using power_int_increasing[of b a "2::real"] by (cases "a < b") auto
next
  assume "a < b"
  then show "(2::real) powi a < 2 powi b" by (intro power_int_strict_increasing) simp_all
qed

lemma pow2_le_iff: "(2::real) powi a \<le> 2 powi b \<longleftrightarrow> a \<le> b"
  using pow2_less_iff[of b a] by (auto simp: not_less[symmetric])

lemma rnd_exact:
  assumes "\<bar>m\<bar> < 2 ^ 53" "- 1074 \<le> e"
  shows "rnd (of_int m * 2 powi e) = of_int m * 2 powi e"
proof (cases "m = 0")
  case True
  then show ?thesis by (simp add: rnd_0)
next
  case False
  define x :: real where "x = of_int m * 2 powi e"
  have ax: "\<bar>x\<bar> = of_int \<bar>m\<bar> * 2 powi e"
    by (simp add: x_def abs_mult less_imp_le[OF pow2_pos])
  have pos: "0 < \<bar>x\<bar>" using False by (simp add: x_def)
  have "of_int \<bar>m\<bar> < (2::real) ^ 53" using assms(1) by (metis of_int_less_numeral_power_cancel_iff)
  then have "\<bar>x\<bar> < 2 ^ 53 * 2 powi e"
    unfolding ax by (intro mult_strict_right_mono pow2_pos)
  also have "\<dots> = 2 powi (e + 53)" by (simp add: power_int_add)
  finally have up: "\<bar>x\<bar> < 2 powi (e + 53)" .
  have "(2::real) powi \<lfloor>log 2 \<bar>x\<bar>\<rfloor> < 2 powi (e + 53)"
    using log2_bounds(1)[OF pos] up by linarith
  then have "\<lfloor>log 2 \<bar>x\<bar>\<rfloor> < e + 53"
    by (simp add: pow2_less_iff)
  then have "quantum x \<le> e" using assms(2) by (simp add: quantum_def)
  then show ?thesis unfolding rnd_def x_def[symmetric] unfolding x_def by (rule round_to_grid)
qed

lemma rnd_nonneg: "0 \<le> x \<Longrightarrow> 0 \<le> rnd x"
  unfolding rnd_def using round_to_mono[of 0 x "quantum x"] by (simp add: round_to_0)

lemma rnd_nonpos: "x \<le> 0 \<Longrightarrow> rnd x \<le> 0"
  unfolding rnd_def using round_to_mono[of x 0 "quantum x"] by (simp add: round_to_0)

lemma quantum_log:
  assumes "- 1074 < quantum x"
  shows "quantum x = \<lfloor>log 2 \<bar>x\<bar>\<rfloor> - 52"
  using assms by (simp add: quantum_def max_def split: if_splits)

lemma rnd_mono_pos:
  assumes "0 < x" "x \<le> y"
  shows "rnd x \<le> rnd y"
proof (cases "quantum x = quantum y")
  case True
  then show ?thesis unfolding rnd_def using round_to_mono[OF assms(2)] by simp
next
  case False
  have y: "0 < y" using assms by linarith
  have lt: "quantum x < quantum y" using quantum_mono[OF assms] False by linarith
  define kx where "kx = \<lfloor>log 2 x\<rfloor>"
  define ky where "ky = \<lfloor>log 2 y\<rfloor>"
  have qy: "quantum y = ky - 52"
    using quantum_log[of y] lt quantum_ge[of x] y by (simp add: ky_def)
  have qx: "kx - 52 \<le> quantum x" using assms(1) by (simp add: quantum_def kx_def)
  define b :: real where "b = 2 powi ky"
  have "b \<le> y" using log2_bounds(1)[OF y] by (simp add: b_def ky_def)
  then have "round_to (quantum y) b \<le> rnd y" unfolding rnd_def by (rule round_to_mono)
  moreover have "round_to (quantum y) b = b"
    unfolding b_def by (rule round_to_pow2) (simp add: qy)
  ultimately have 1: "b \<le> rnd y" by simp
  have "x < 2 powi (kx + 1)" using log2_bounds(2)[OF assms(1)] by (simp add: kx_def)
  moreover have "(2::real) powi (kx + 1) \<le> b"
    unfolding b_def pow2_le_iff using qx lt qy by linarith
  ultimately have "x \<le> b" by linarith
  then have "rnd x \<le> round_to (quantum x) b" unfolding rnd_def by (rule round_to_mono)
  moreover have "round_to (quantum x) b = b"
    unfolding b_def by (rule round_to_pow2) (use lt qy in linarith)
  ultimately show ?thesis using 1 by linarith
qed

lemma rnd_mono:
  assumes "x \<le> y"
  shows "rnd x \<le> rnd y"
proof -
  consider "0 < x" | "x \<le> 0" "0 \<le> y" | "y < 0" by linarith
  then show ?thesis
  proof cases
    case 1
    then show ?thesis using assms by (rule rnd_mono_pos)
  next
    case 2
    then show ?thesis using rnd_nonpos[of x] rnd_nonneg[of y] by linarith
  next
    case 3
    then have "rnd (- y) \<le> rnd (- x)" using assms by (intro rnd_mono_pos) simp_all
    then show ?thesis by (simp add: rnd_minus)
  qed
qed

lemma rnd_err: "\<bar>rnd x - x\<bar> \<le> 2 powi quantum x / 2"
  unfolding rnd_def by (rule round_to_err)

lemma rnd_rel_err:
  assumes "2 powi (- 1022) \<le> \<bar>x\<bar>"
  shows "\<bar>rnd x - x\<bar> \<le> \<bar>x\<bar> / 2 ^ 53"
proof -
  have pos: "0 < \<bar>x\<bar>" using assms pow2_pos[of "- 1022"] by linarith
  define k where "k = \<lfloor>log 2 \<bar>x\<bar>\<rfloor>"
  have "(2::real) powi (- 1022) < 2 powi (k + 1)"
    using assms log2_bounds(2)[OF pos] by (simp add: k_def)
  then have "- 1022 < k + 1" by (simp only: pow2_less_iff)
  then have "- 1022 \<le> k" by simp
  moreover have "quantum x = max (k - 52) (- 1074)" by (simp add: quantum_def k_def)
  ultimately have q: "quantum x = k - 52" by (simp add: max_def)
  have "(2::real) powi (k - 52) = 2 powi k / 2 ^ 52"
    by (simp add: power_int_diff)
  also have "\<dots> \<le> \<bar>x\<bar> / 2 ^ 52"
    using log2_bounds(1)[OF pos] by (simp add: k_def divide_right_mono)
  finally have "2 powi quantum x / 2 \<le> \<bar>x\<bar> / 2 ^ 52 / 2" by (simp add: q)
  then show ?thesis using rnd_err[of x] by simp
qed

lemma max_float_exact: "rnd max_float = max_float"
proof -
  have "rnd (of_int (2 ^ 53 - 1) * 2 powi 971) = of_int (2 ^ 53 - 1) * 2 powi 971"
    by (rule rnd_exact) simp_all
  then show ?thesis by (simp add: max_float_def)
qed

lemma fin_Fin:
  assumes "\<bar>x\<bar> \<le> max_float"
  shows "fin x = Fin (rnd x)"
proof -
  have "rnd x \<le> rnd max_float" using assms by (intro rnd_mono) linarith
  moreover have "rnd (- max_float) \<le> rnd x" using assms by (intro rnd_mono) linarith
  ultimately show ?thesis by (simp add: fin_def max_float_exact rnd_minus Let_def)
qed

subsection \<open>The range of the finite floats\<close>

lemma max_float_powi: "max_float = (2 ^ 53 - 1) * 2 powi 971"
  unfolding max_float_def by (simp only: power_int_numeral)

lemma fin_exact:
  assumes "\<bar>m\<bar> < 2 ^ 53" "- 1074 \<le> e" "e \<le> 971"
  shows "fin (of_int m * 2 powi e) = Fin (of_int m * 2 powi e)"
proof -
  have "\<bar>m\<bar> \<le> 2 ^ 53 - 1" using assms(1) by simp
  then have "(of_int \<bar>m\<bar> :: real) \<le> of_int (2 ^ 53 - 1)" by (simp only: of_int_le_iff)
  then have m: "of_int \<bar>m\<bar> \<le> (2::real) ^ 53 - 1" by simp
  have e: "(2::real) powi e \<le> 2 powi 971" using assms(3) by (simp only: pow2_le_iff)
  have p: "0 \<le> (2::real) powi e" by (rule less_imp_le[OF pow2_pos])
  have "\<bar>of_int m * (2::real) powi e\<bar> = of_int \<bar>m\<bar> * 2 powi e"
    using p by (simp only: abs_mult abs_of_nonneg of_int_abs)
  also have "\<dots> \<le> (2 ^ 53 - 1) * 2 powi 971"
    using m e p by (intro mult_mono) (simp_all only: of_int_0_le_iff abs_ge_zero)
  finally have "\<bar>of_int m * (2::real) powi e\<bar> \<le> max_float" by (simp only: max_float_powi)
  then show ?thesis using rnd_exact[OF assms(1,2)] by (simp only: fin_Fin)
qed

lemma fin_of_int: "\<bar>n\<bar> < 2 ^ 53 \<Longrightarrow> fin (of_int n) = Fin (of_int n)"
  using fin_exact[of n 0] by simp

lemma fin_half: "fin (1 / 2) = Fin (1 / 2)" "fin (- (1 / 2)) = Fin (- (1 / 2))"
  using fin_exact[of 1 "- 1"] fin_exact[of "- 1" "- 1"] by simp_all

lemma fin_0: "fin 0 = Fin 0" and fin_1: "fin 1 = Fin 1" and fin_2: "fin 2 = Fin 2"
  and fin_16: "fin 16 = Fin 16" and fin_m16: "fin (- 16) = Fin (- 16)"
  using fin_of_int[of 0] fin_of_int[of 1] fin_of_int[of 2] fin_of_int[of 16] fin_of_int[of "- 16"]
  by simp_all

lemma pow2_add: "(2::real) powi (a + b) = 2 powi a * 2 powi b"
  by (simp add: power_int_add)

lemma max_float_ge: "2 powi 1023 \<le> max_float"
proof -
  have e: "(1023::int) = 52 + 971" by simp
  have "(2::real) powi 1023 = 2 powi 52 * 2 powi 971"
    by (subst e) (rule pow2_add)
  also have "\<dots> = 2 ^ 52 * 2 powi 971" by (simp only: power_int_numeral)
  also have "\<dots> \<le> (2 ^ 53 - 1) * 2 powi 971"
    by (intro mult_right_mono less_imp_le[OF pow2_pos]) simp
  finally show ?thesis by (simp only: max_float_powi)
qed

lemma max_float_less: "max_float < 2 powi 1024"
proof -
  have "(2 ^ 53 - 1) * 2 powi 971 < (2::real) ^ 53 * 2 powi 971"
    by (intro mult_strict_right_mono pow2_pos) simp
  also have "\<dots> = 2 powi 53 * 2 powi 971" by (simp only: power_int_numeral)
  also have "\<dots> = 2 powi 1024"
  proof -
    have e: "(1024::int) = 53 + 971" by simp
    show ?thesis by (subst e) (rule pow2_add[symmetric])
  qed
  finally show ?thesis by (simp only: max_float_powi)
qed

lemma rnd_pow2: "- 1074 \<le> e \<Longrightarrow> rnd (2 powi e) = 2 powi e"
  using rnd_exact[of 1 e] by simp

lemma fin_PInf:
  assumes "2 powi 1024 \<le> x"
  shows "fin x = PInf"
proof -
  have "rnd (2 powi 1024) \<le> rnd x" using assms by (rule rnd_mono)
  moreover have "rnd (2 powi 1024) = 2 powi 1024" by (rule rnd_pow2) simp
  ultimately have "2 powi 1024 \<le> rnd x" by (simp only:)
  then have "max_float < rnd x" using max_float_less by linarith
  then show ?thesis by (simp add: fin_def Let_def)
qed

lemma fin_Fin': "\<bar>x\<bar> \<le> 2 powi 1023 \<Longrightarrow> fin x = Fin (rnd x)"
  using max_float_ge by (intro fin_Fin) linarith

lemma rnd_tiny:
  assumes "0 \<le> x" "x < 2 powi (- 1075)"
  shows "rnd x = 0"
proof (cases "x = 0")
  case True
  then show ?thesis by (simp add: rnd_0)
next
  case False
  then have pos: "0 < x" using assms(1) by simp
  define k where "k = \<lfloor>log 2 x\<rfloor>"
  have "(2::real) powi k < 2 powi (- 1075)"
    using log2_bounds(1)[OF pos] assms(2) unfolding k_def by linarith
  then have "k < - 1075" by (simp only: pow2_less_iff)
  moreover have "quantum x = max (k - 52) (- 1074)" using pos by (simp add: quantum_def k_def)
  ultimately have q: "quantum x = - 1074" by (simp add: max_def)
  have "x / 2 powi (- 1074) < 2 powi (- 1075) / 2 powi (- 1074)"
    using assms(2) by (intro divide_strict_right_mono pow2_pos)
  also have "(2::real) powi (- 1075) / 2 powi (- 1074) = 2 powi (- 1075 - (- 1074))"
    by (rule power_int_diff[symmetric]) simp
  also have "\<dots> = 1 / 2" by simp
  finally have lt: "x / 2 powi (- 1074) < 1 / 2" .
  have ge: "0 \<le> x / 2 powi (- 1074)" using assms(1) less_imp_le[OF pow2_pos] by (intro divide_nonneg_nonneg)
  have "\<lfloor>x / 2 powi (- 1074)\<rfloor> = 0" using lt ge by (simp only: floor_eq_iff) simp
  then have "rhe (x / 2 powi (- 1074)) = 0" using lt ge unfolding rhe_def Let_def by simp
  then show ?thesis unfolding rnd_def q round_to_def by simp
qed

lemma two_le_ten_pow: "(2::real) ^ (3 * n) \<le> 10 ^ n"
proof -
  have "(2::real) ^ (3 * n) = (2 ^ 3) ^ n" by (simp only: power_mult)
  also have "\<dots> \<le> 10 ^ n" by (intro power_mono) simp_all
  finally show ?thesis .
qed

lemma ten_le_two_pow: "(10::real) ^ (3 * n) \<le> 2 ^ (10 * n)"
proof -
  have "(10::real) ^ (3 * n) = (10 ^ 3) ^ n" by (simp only: power_mult)
  also have "\<dots> \<le> (2 ^ 10) ^ n" by (intro power_mono) simp_all
  also have "\<dots> = 2 ^ (10 * n)" by (simp only: power_mult)
  finally show ?thesis .
qed

section \<open>The persistence store: properties\<close>

lemma save_ratings_eq:
  "save_ratings st theme r =
     st\<lparr>ratings_file := (ratings_file st)(theme := Whole r),
        writes := writes st @ [RatingsWrite theme r]\<rparr>"
  by (simp add: save_ratings_def save_ratings_steps_def run_steps_def open_ratings_def
      dump_ratings_def)


lemma load_save_ratings:
  "load_ratings (save_ratings st theme r) theme' =
     (if theme' = theme then Inr r else load_ratings st theme')"
  by (simp add: load_ratings_def save_ratings_eq)


lemma and_then_Inr_iff: "and_then m f = Inr v \<longleftrightarrow> (\<exists>x. m = Inr x \<and> f x = Inr v)"
  by (cases m) simp_all

lemma and_then_Inl_iff:
  "and_then m f = Inl e \<longleftrightarrow> m = Inl e \<or> (\<exists>x. m = Inr x \<and> f x = Inl e)"
  by (cases m) simp_all

section \<open>The rating engine: properties\<close>

lemma nadd_float: "nadd a (PyFloat c) = and_then (to_float a) (\<lambda>x. Inr (PyFloat (fadd x c)))"
  by (cases a) (simp_all add: float_op_def)

lemma apply_outcome_distinct:
  assumes "r winner = Some w" "r loser = Some l" "winner \<noteq> loser"
  shows "apply_outcome r winner loser wc lc =
    and_then (nadd (rating w) (PyFloat wc)) (\<lambda>nw.
    and_then (nadd (rating l) (PyFloat lc)) (\<lambda>nl.
    Inr (r(winner \<mapsto> w\<lparr>rating := nw, plays := plays w + 1, wins := wins w + 1,
                        biggest_win := py_max (biggest_win w) (PyFloat wc)\<rparr>,
           loser \<mapsto> l\<lparr>rating := nl, plays := plays l + 1, losses := losses l + 1,
                       lowest_loss := py_max (lowest_loss l) (PyFloat (fabs lc))\<rparr>))))"
proof (cases "nadd (rating w) (PyFloat wc)")
  case (Inl e)
  then show ?thesis using assms by (simp add: apply_outcome_def add_to_rating_def)
next
  case nw: (Inr nw)
  show ?thesis
  proof (cases "nadd (rating l) (PyFloat lc)")
    case (Inl e)
    then show ?thesis using assms nw by (simp add: apply_outcome_def add_to_rating_def)
  next
    case (Inr nl)
    then show ?thesis using assms nw
      by (auto simp: apply_outcome_def add_to_rating_def assign_def Let_def py_max_def
          fun_eq_iff)
  qed
qed

lemma apply_outcome_same:
  assumes "r i = Some w"
  shows "apply_outcome r i i wc lc =
    and_then (nadd (rating w) (PyFloat wc)) (\<lambda>nw.
    and_then (nadd nw (PyFloat lc)) (\<lambda>nl.
    Inr (r(i \<mapsto> w\<lparr>rating := nl, plays := plays w + 1 + 1,
                   wins := wins w + 1, losses := losses w + 1,
                   biggest_win := py_max (biggest_win w) (PyFloat wc),
                   lowest_loss := py_max (lowest_loss w) (PyFloat (fabs lc))\<rparr>))))"
proof (cases "nadd (rating w) (PyFloat wc)")
  case (Inl e)
  then show ?thesis using assms by (simp add: apply_outcome_def add_to_rating_def)
next
  case nw: (Inr nw)
  show ?thesis
  proof (cases "nadd nw (PyFloat lc)")
    case (Inl e)
    then show ?thesis using assms nw by (simp add: apply_outcome_def add_to_rating_def)
  next
    case (Inr nl)
    then show ?thesis using assms nw
      by (auto simp: apply_outcome_def add_to_rating_def assign_def Let_def py_max_def
          fun_eq_iff)
  qed
qed

lemma update_ratings_eq:
  assumes "load_ratings st theme = Inr r"
  shows "update_ratings c_pow st theme winner loser =
     (case r winner of
        None \<Rightarrow> Inl (KeyError winner)
      | Some w \<Rightarrow>
          (case r loser of
             None \<Rightarrow> Inl (KeyError loser)
           | Some l \<Rightarrow>
               (case calculate_elo_change c_pow (rating w) (rating l) (PyInt 32) of
                  Inl e \<Rightarrow> Inl e
                | Inr c \<Rightarrow>
                    (case apply_outcome r winner loser (fst c) (snd c) of
                       Inl e \<Rightarrow> Inl e
                     | Inr r' \<Rightarrow> Inr (save_ratings st theme r')))))"
  using assms
  by (simp add: update_ratings_def split: option.splits sum.splits prod.splits)

lemma update_ratings_Inr:
  assumes "update_ratings c_pow st theme winner loser = Inr st'"
  obtains r w l wc lc r' where
    "load_ratings st theme = Inr r" "r winner = Some w" "r loser = Some l"
    "calculate_elo_change c_pow (rating w) (rating l) (PyInt 32) = Inr (wc, lc)"
    "apply_outcome r winner loser wc lc = Inr r'"
    "st' = save_ratings st theme r'"
proof -
  from assms obtain r where r: "load_ratings st theme = Inr r"
    by (auto simp: update_ratings_def and_then_Inr_iff)
  from assms show ?thesis
    unfolding update_ratings_eq[OF r]
    by (auto split: option.splits sum.splits intro: that[OF r])
qed

lemma fin_1016: "fin 1016 = Fin 1016" and fin_984: "fin 984 = Fin 984"
  and fin_1000: "fin 1000 = Fin 1000" and fin_400: "fin 400 = Fin 400"
  and fin_32: "fin 32 = Fin 32"
  using fin_of_int[of 1016] fin_of_int[of 984] fin_of_int[of 1000] fin_of_int[of 400]
    fin_of_int[of 32]
  by simp_all

lemma exact_1000: "exact a = Fin 1000 \<longleftrightarrow> a = PyInt 1000 \<or> a = PyFloat (Fin 1000)"
  by (cases a) auto

lemma quotient_level:
  assumes "exact a = Fin 1000" "exact b = Fin 1000"
  shows "and_then (nsub a b) (\<lambda>d. ndiv d (PyInt 400)) = Inr (Fin 0)"
  using assms
  by (auto simp: exact_1000 float_op_def finite_or_raise_def fin_1000 fin_400 fin_0 fsub_def)

lemma elo_change_level:
  assumes "exact a = Fin 1000" "exact b = Fin 1000"
  shows "calculate_elo_change c_pow a b (PyInt 32) = Inr (Fin 16, Fin (- 16))"
proof -
  have q: "nsub a b = Inr d \<Longrightarrow> ndiv d (PyInt 400) = Inr (Fin 0)"
      "nsub b a = Inr d \<Longrightarrow> ndiv d (PyInt 400) = Inr (Fin 0)" for d
    using quotient_level[OF assms] quotient_level[OF assms(2,1)] by simp_all
  obtain d1 d2 where d: "nsub b a = Inr d1" "nsub a b = Inr d2"
    using quotient_level[OF assms] quotient_level[OF assms(2,1)]
    by (auto simp: and_then_Inr_iff)
  show ?thesis
    unfolding calculate_elo_change_def
    by (simp add: d q(2)[OF d(1)] q(1)[OF d(2)] finite_or_raise_def fin_32 fsub_def fin_0 fin_1
        fin_2 fin_half fin_16 fin_m16)
qed

lemma add_level:
  assumes "exact a = Fin 1000"
  shows "nadd a (PyFloat (Fin 16)) = Inr (PyFloat (Fin 1016))"
    and "nadd a (PyFloat (Fin (- 16))) = Inr (PyFloat (Fin 984))"
  using assms
  by (auto simp: exact_1000 float_op_def finite_or_raise_def fin_1000 fin_1016 fin_984)

text \<open>
  C2. With X and Y both rated 1000, as the integer that a new record holds or as the float,
  the change computed for the winner is exactly 16 and for the loser exactly -16, and
  recording that X beats Y leaves X rated 1000 + 16 and Y rated 1000 - 16: no operation on
  the way rounds, whatever the C library is.
\<close>

theorem level_ratings_move_by_16:
  assumes "load_ratings st theme = Inr r" and "r X = Some x" and "r Y = Some y"
    and "X \<noteq> Y" and "exact (rating x) = Fin 1000" and "exact (rating y) = Fin 1000"
  shows "calculate_elo_change c_pow (rating x) (rating y) (PyInt 32) = Inr (Fin 16, Fin (- 16)) \<and>
    (\<exists>st' r'. update_ratings c_pow st theme X Y = Inr st' \<and>
       load_ratings st' theme = Inr r' \<and>
       map_option rating (r' X) = Some (PyFloat (Fin (1000 + 16))) \<and>
       map_option rating (r' Y) = Some (PyFloat (Fin (1000 - 16))))"
  using assms
  by (simp add: update_ratings_eq[OF assms(1)] apply_outcome_distinct elo_change_level
      add_level load_save_ratings del: nadd.simps)

lemma flt_irrefl: "\<not> flt a a"
  by (cases a) simp_all

lemma flt_trans: "flt a b \<Longrightarrow> flt b c \<Longrightarrow> flt a c"
  by (cases a; cases b; cases c) simp_all

lemma not_decreased_refl: "not_decreased a a"
  by (simp add: not_decreased_def)

lemma not_decreased_trans: "not_decreased a b \<Longrightarrow> not_decreased b c \<Longrightarrow> not_decreased a c"
  by (auto simp: not_decreased_def nlt_def intro: flt_trans)

lemma not_decreased_py_max: "not_decreased a (py_max a b)"
  by (simp add: not_decreased_def py_max_def ngt_def)

lemma update_ratings_not_decreased:
  assumes "update_ratings c_pow st theme winner loser = Inr st'"
    and "load_ratings st t = Inr r0" and "r0 i = Some b"
  shows "\<exists>r1 a. load_ratings st' t = Inr r1 \<and> r1 i = Some a \<and>
           not_decreased (biggest_win b) (biggest_win a) \<and>
           not_decreased (lowest_loss b) (lowest_loss a)"
proof -
  from assms(1) obtain r w l wc lc r' where
    r: "load_ratings st theme = Inr r" and w: "r winner = Some w" and l: "r loser = Some l"
    and ap: "apply_outcome r winner loser wc lc = Inr r'"
    and st': "st' = save_ratings st theme r'"
    by (rule update_ratings_Inr)
  show ?thesis
  proof (cases "t = theme")
    case False
    then show ?thesis using assms(2,3) by (simp add: st' load_save_ratings not_decreased_refl)
  next
    case True
    then have r0: "r0 = r" using r assms(2) by simp
    show ?thesis
    proof (cases "winner = loser")
      case same: True
      from ap same w show ?thesis
        using assms(3) True
        unfolding r0 st'
        by (cases "i = winner")
           (auto simp: load_save_ratings apply_outcome_same and_then_Inr_iff not_decreased_refl
              not_decreased_py_max)
    next
      case False
      from ap False w l show ?thesis
        using assms(3) True
        unfolding r0 st'
        by (cases "i = winner"; cases "i = loser")
           (auto simp: load_save_ratings apply_outcome_distinct and_then_Inr_iff
              not_decreased_refl not_decreased_py_max)
    qed
  qed
qed

text \<open>
  C7. Over any session of recorded outcomes, whether it runs to its end or is cut short by an
  exception, the \<^verbatim>\<open>biggest_win\<close> and the \<^verbatim>\<open>lowest_loss\<close> of every record are at the end
  what they were at the start or larger.
\<close>

theorem statistics_never_decrease:
  assumes "load_ratings st t = Inr r" and "r i = Some b"
  shows "\<exists>r' a. load_ratings (fst (record_outcomes c_pow st theme outcomes)) t = Inr r' \<and>
           r' i = Some a \<and>
           not_decreased (biggest_win b) (biggest_win a) \<and>
           not_decreased (lowest_loss b) (lowest_loss a)"
  using assms
proof (induction outcomes arbitrary: st r b)
  case Nil
  then show ?case by (simp add: not_decreased_refl)
next
  case (Cons p outcomes)
  obtain winner loser where p: "p = (winner, loser)" by (cases p)
  show ?case
  proof (cases "update_ratings c_pow st theme winner loser")
    case (Inl e)
    then show ?thesis using Cons.prems by (simp add: p not_decreased_refl)
  next
    case (Inr st')
    from update_ratings_not_decreased[OF Inr Cons.prems] obtain r1 m where
      m: "load_ratings st' t = Inr r1" "r1 i = Some m"
         "not_decreased (biggest_win b) (biggest_win m)"
         "not_decreased (lowest_loss b) (lowest_loss m)" by blast
    from Cons.IH[OF m(1,2)] obtain r' a where
      "load_ratings (fst (record_outcomes c_pow st' theme outcomes)) t = Inr r'"
      "r' i = Some a"
      "not_decreased (biggest_win m) (biggest_win a)"
      "not_decreased (lowest_loss m) (lowest_loss a)" by blast
    then show ?thesis using m Inr by (auto simp: p intro: not_decreased_trans)
  qed
qed

lemma update_ratings_consistent:
  assumes "update_ratings c_pow st theme winner loser = Inr st'"
    and "load_ratings st theme = Inr r0" and "consistent r0"
  shows "\<exists>r1. load_ratings st' theme = Inr r1 \<and> consistent r1"
proof -
  from assms(1) obtain r w l wc lc r' where
    r: "load_ratings st theme = Inr r" and w: "r winner = Some w" and l: "r loser = Some l"
    and ap: "apply_outcome r winner loser wc lc = Inr r'"
    and st': "st' = save_ratings st theme r'"
    by (rule update_ratings_Inr)
  have r0: "r0 = r" using r assms(2) by simp
  have "consistent r'"
  proof (cases "winner = loser")
    case True
    from ap True w show ?thesis using assms(3) unfolding r0
      by (auto simp: apply_outcome_same and_then_Inr_iff consistent_def split: if_splits)
  next
    case False
    from ap False w l show ?thesis using assms(3) unfolding r0
      by (auto simp: apply_outcome_distinct and_then_Inr_iff consistent_def split: if_splits)
  qed
  then show ?thesis by (simp add: st' load_save_ratings)
qed

lemma record_outcomes_consistent:
  "load_ratings st theme = Inr r0 \<Longrightarrow> consistent r0 \<Longrightarrow>
   \<exists>r1. load_ratings (fst (record_outcomes c_pow st theme outcomes)) theme = Inr r1 \<and>
        consistent r1"
proof (induction outcomes arbitrary: st r0)
  case Nil
  then show ?case by simp
next
  case (Cons p outcomes)
  obtain winner loser where p: "p = (winner, loser)" by (cases p)
  show ?case
  proof (cases "update_ratings c_pow st theme winner loser")
    case (Inl e)
    then show ?thesis using Cons.prems by (simp add: p)
  next
    case (Inr st')
    from update_ratings_consistent[OF Inr Cons.prems] obtain r1 where
      "load_ratings st' theme = Inr r1" "consistent r1" by blast
    from Cons.IH[OF this] show ?thesis using Inr by (simp add: p)
  qed
qed

lemma init_loop_table:
  "fst (init_loop clock items (r, u)) =
     (\<lambda>i. if i \<in> set items \<and> r i = None then Some (new_record (clock i)) else r i)"
  by (induction items arbitrary: r u) (auto simp: fun_eq_iff)

lemma init_loop_flag:
  "snd (init_loop clock items (r, u)) \<longleftrightarrow> u \<or> (\<exists>i\<in>set items. r i = None)"
  by (induction items arbitrary: r u) auto

lemma initialize_ratings_eq:
  assumes "load_ratings st theme = Inr r0"
  shows "initialize_ratings st clock theme items =
     (let r = (\<lambda>i. if i \<in> set items \<and> r0 i = None then Some (new_record (clock i)) else r0 i)
      in Inr (r, if \<exists>i\<in>set items. r0 i = None then save_ratings st theme r else st))"
proof -
  obtain r u where l: "init_loop clock items (r0, False) = (r, u)"
    by (cases "init_loop clock items (r0, False)")
  have r: "r = (\<lambda>i. if i \<in> set items \<and> r0 i = None then Some (new_record (clock i)) else r0 i)"
    using init_loop_table[of clock items r0 False] by (simp add: l)
  have u: "u \<longleftrightarrow> (\<exists>i\<in>set items. r0 i = None)"
    using init_loop_flag[of clock items r0 False] by (simp add: l)
  have pair_if: "(if c then (r, a) else (r, b)) = (r, if c then a else b)"
    for c and a b :: store by simp
  show ?thesis
    unfolding initialize_ratings_def assms and_then.simps l prod.case Let_def u r[symmetric]
      pair_if
    by (rule refl)
qed

lemma initialize_ratings_Inl:
  "load_ratings st theme = Inl e \<Longrightarrow> initialize_ratings st clock theme items = Inl e"
  by (simp add: initialize_ratings_def)

lemma initialize_ratings_consistent:
  assumes "load_ratings st theme = Inr r0"
  shows "\<exists>r st'. initialize_ratings st clock theme items = Inr (r, st') \<and>
           load_ratings st' theme = Inr r \<and>
           (\<forall>i\<in>set items. r0 i = None \<longrightarrow>
              (\<exists>x. r i = Some x \<and> plays x = wins x + losses x)) \<and>
           (consistent r0 \<longrightarrow> consistent r)"
proof -
  define r where
    "r = (\<lambda>i. if i \<in> set items \<and> r0 i = None then Some (new_record (clock i)) else r0 i)"
  define st' where "st' = (if \<exists>i\<in>set items. r0 i = None then save_ratings st theme r else st)"
  have run: "initialize_ratings st clock theme items = Inr (r, st')"
    unfolding r_def st'_def by (rule initialize_ratings_eq[OF assms, unfolded Let_def])
  have same: "r = r0" if "\<not> (\<exists>i\<in>set items. r0 i = None)"
    using that by (auto simp: r_def fun_eq_iff)
  have load: "load_ratings st' theme = Inr r"
    using assms same by (auto simp: st'_def load_save_ratings)
  have new: "\<forall>i\<in>set items. r0 i = None \<longrightarrow> (\<exists>x. r i = Some x \<and> plays x = wins x + losses x)"
    by (simp add: r_def new_record_def)
  have cons: "consistent r0 \<longrightarrow> consistent r"
    by (auto simp: consistent_def r_def new_record_def split: if_splits)
  show ?thesis using run load new cons by blast
qed

text \<open>
  C10. Every record that \<^verbatim>\<open>initialize_ratings\<close> creates has as many plays as wins and
  losses together, and a table in which every record has this property keeps it through
  \<^verbatim>\<open>initialize_ratings\<close> (in the table returned and in the table stored), through every
  call of \<^verbatim>\<open>update_ratings\<close> that returns, and through every session of recorded
  outcomes.
\<close>

theorem plays_is_wins_plus_losses:
  assumes "load_ratings st theme = Inr r0"
  shows "(\<exists>r st'. initialize_ratings st clock theme items = Inr (r, st') \<and>
            load_ratings st' theme = Inr r \<and>
            (\<forall>i\<in>set items. r0 i = None \<longrightarrow>
               (\<exists>x. r i = Some x \<and> plays x = wins x + losses x)) \<and>
            (consistent r0 \<longrightarrow> consistent r)) \<and>
         (consistent r0 \<longrightarrow>
            (\<forall>winner loser st'. update_ratings c_pow st theme winner loser = Inr st' \<longrightarrow>
               (\<exists>r1. load_ratings st' theme = Inr r1 \<and> consistent r1)) \<and>
            (\<exists>r1. load_ratings (fst (record_outcomes c_pow st theme outcomes)) theme = Inr r1 \<and>
                  consistent r1))"
  using initialize_ratings_consistent[OF assms, of clock items]
    update_ratings_consistent[of c_pow st theme _ _ _ r0, OF _ assms]
    record_outcomes_consistent[OF assms, of c_pow outcomes]
  by blast

lemma load_level:
  "load_ratings (two_items a b) ''t'' =
     Inr [''X'' \<mapsto> (new_record ''d1'')\<lparr>rating := a\<rparr>, ''Y'' \<mapsto> (new_record ''d2'')\<lparr>rating := b\<rparr>]"
  "load_items (two_items a b) ''t'' = Inr [''X'', ''Y'']"
  by (simp_all add: two_items_def load_ratings_def load_items_def)

lemma load_fresh: "load_ratings fresh_store t = Inr Map.empty" "load_items fresh_store t = Inr []"
  by (simp_all add: fresh_store_def load_ratings_def load_items_def)

theorem level_ratings_move_by_16_witness:
  "load_ratings level_store ''t'' =
     Inr [''X'' \<mapsto> new_record ''d1'', ''Y'' \<mapsto> new_record ''d2''] \<and>
   ''X'' \<noteq> ''Y'' \<and> exact (rating (new_record ''d1'')) = Fin 1000 \<and>
   exact (rating (new_record ''d2'')) = Fin 1000 \<and>
   calculate_elo_change rounded_pow (PyInt 1000) (PyInt 1000) (PyInt 32)
     = Inr (Fin 16, Fin (- 16)) \<and>
   (\<exists>st' r'. update_ratings rounded_pow level_store ''t'' ''X'' ''Y'' = Inr st' \<and>
       load_ratings st' ''t'' = Inr r' \<and>
       map_option rating (r' ''X'') = Some (PyFloat (Fin 1016)) \<and>
       map_option rating (r' ''Y'') = Some (PyFloat (Fin 984)))"
proof -
  have 1: "load_ratings level_store ''t'' =
     Inr [''X'' \<mapsto> new_record ''d1'', ''Y'' \<mapsto> new_record ''d2'']"
    by (simp add: level_store_def load_level new_record_def)
  have 2: "[''X'' \<mapsto> new_record ''d1'', ''Y'' \<mapsto> new_record ''d2''] ''X'' = Some (new_record ''d1'')"
    and 3: "[''X'' \<mapsto> new_record ''d1'', ''Y'' \<mapsto> new_record ''d2''] ''Y'' = Some (new_record ''d2'')"
    by simp_all
  have 4: "''X'' \<noteq> ''Y''" by simp
  have 5: "exact (rating (new_record ''d1'')) = Fin 1000"
    and 6: "exact (rating (new_record ''d2'')) = Fin 1000"
    by (simp_all add: new_record_def)
  have 7: "rating (new_record ''d1'') = PyInt 1000" "rating (new_record ''d2'') = PyInt 1000"
    by (simp_all add: new_record_def)
  show ?thesis
    using level_ratings_move_by_16[OF 1 2 3 4 5 6, of rounded_pow] 1 5 6
    by (simp add: 7)
qed

theorem statistics_never_decrease_witness:
  "load_ratings level_store ''t'' =
     Inr [''X'' \<mapsto> new_record ''d1'', ''Y'' \<mapsto> new_record ''d2''] \<and>
   (\<exists>r' a. load_ratings (fst (record_outcomes rounded_pow level_store ''t''
                                [(''X'', ''Y''), (''Y'', ''X'')])) ''t'' = Inr r' \<and>
        r' ''X'' = Some a \<and>
        not_decreased (PyInt 0) (biggest_win a) \<and> not_decreased (PyInt 0) (lowest_loss a))"
proof -
  have 1: "load_ratings level_store ''t'' =
     Inr [''X'' \<mapsto> new_record ''d1'', ''Y'' \<mapsto> new_record ''d2'']"
    by (simp add: level_store_def load_level new_record_def)
  have 2: "[''X'' \<mapsto> new_record ''d1'', ''Y'' \<mapsto> new_record ''d2''] ''X'' = Some (new_record ''d1'')"
    by simp
  show ?thesis
    using statistics_never_decrease[OF 1 2, of rounded_pow "''t''" "[(''X'', ''Y''), (''Y'', ''X'')]"] 1
    by (simp add: new_record_def)
qed

theorem plays_is_wins_plus_losses_witness:
  "load_ratings fresh_store ''t'' = Inr Map.empty \<and> consistent Map.empty \<and>
   (\<exists>r st' x. initialize_ratings fresh_store (\<lambda>i. ''now'') ''t'' [''X''] = Inr (r, st') \<and>
        load_ratings st' ''t'' = Inr r \<and> r ''X'' = Some x \<and> plays x = wins x + losses x \<and>
        consistent r) \<and>
   load_ratings level_store ''t'' =
     Inr [''X'' \<mapsto> new_record ''d1'', ''Y'' \<mapsto> new_record ''d2''] \<and>
   consistent [''X'' \<mapsto> new_record ''d1'', ''Y'' \<mapsto> new_record ''d2''] \<and>
   (\<exists>r1. load_ratings (fst (record_outcomes rounded_pow level_store ''t'' [(''X'', ''Y'')])) ''t''
           = Inr r1 \<and> consistent r1)"
proof -
  have 1: "load_ratings level_store ''t'' =
     Inr [''X'' \<mapsto> new_record ''d1'', ''Y'' \<mapsto> new_record ''d2'']"
    by (simp add: level_store_def load_level new_record_def)
  have 2: "consistent [''X'' \<mapsto> new_record ''d1'', ''Y'' \<mapsto> new_record ''d2'']"
    by (simp add: consistent_def new_record_def)
  have 3: "load_ratings fresh_store ''t'' = Inr Map.empty" by (rule load_fresh)
  have 4: "consistent Map.empty" by (simp add: consistent_def)
  from plays_is_wins_plus_losses[OF 3, of "\<lambda>i. ''now''" "[''X'']" rounded_pow "[]"] 4
  have a: "\<exists>r st' x. initialize_ratings fresh_store (\<lambda>i. ''now'') ''t'' [''X''] = Inr (r, st') \<and>
        load_ratings st' ''t'' = Inr r \<and> r ''X'' = Some x \<and> plays x = wins x + losses x \<and>
        consistent r"
    by auto
  from plays_is_wins_plus_losses[OF 1, of "\<lambda>i. ''now''" "[]" rounded_pow "[(''X'', ''Y'')]"] 2
  have b: "\<exists>r1. load_ratings (fst (record_outcomes rounded_pow level_store ''t'' [(''X'', ''Y'')]))
                 ''t'' = Inr r1 \<and> consistent r1"
    by blast
  show ?thesis using 1 2 3 4 a b by blast
qed

lemma initialize_ratings_again:
  assumes "initialize_ratings st clock theme items = Inr (r, st')"
  shows "initialize_ratings st' clock' theme items = Inr (r, st')"
proof -
  from assms obtain r0 where r0: "load_ratings st theme = Inr r0"
    by (auto simp: initialize_ratings_def and_then_Inr_iff)
  note eq = assms[unfolded initialize_ratings_eq[OF r0] Let_def]
  from eq have r: "r = (\<lambda>i. if i \<in> set items \<and> r0 i = None
                                then Some (new_record (clock i)) else r0 i)"
    by blast
  from eq have st': "st' = (if \<exists>i\<in>set items. r0 i = None then save_ratings st theme r else st)"
    unfolding r by blast
  have same: "r = r0" if "\<not> (\<exists>i\<in>set items. r0 i = None)"
    using that by (auto simp: r fun_eq_iff)
  have load: "load_ratings st' theme = Inr r"
    using r0 same by (auto simp: st' load_save_ratings)
  have full: "\<not> (\<exists>i\<in>set items. r i = None)" by (auto simp: r)
  have tab: "(\<lambda>i. if i \<in> set items \<and> r i = None then Some (new_record (clock' i)) else r i) = r"
    using full by (auto simp: fun_eq_iff)
  have "(\<exists>i\<in>set items. r i = None) = False" using full by blast
  then show ?thesis
    unfolding initialize_ratings_eq[OF load] Let_def tab by (simp only: if_False)
qed

text \<open>
  C4. On a rating file that cannot be read \<^verbatim>\<open>initialize_ratings\<close> raises what
  \<^verbatim>\<open>json.load\<close> raises. Otherwise it gives every listed item without a record the record
  with rating 1000, no plays, wins or losses, both statistics 0 and the time of its creation,
  and leaves every other entry of the table as it was. It writes the table, once, exactly
  when some listed item had no record. A second call with the same items, at any later time,
  returns the same table and leaves the store, its write history included, as the first call
  left it.
\<close>

theorem initialize_ratings_creates_missing_once:
  "initialize_ratings st clock theme items =
     (case load_ratings st theme of
        Inl e \<Rightarrow> Inl e
      | Inr r0 \<Rightarrow>
          let r = (\<lambda>i. if i \<in> set items \<and> r0 i = None
                       then Some \<lparr>rating = PyInt 1000, plays = 0, wins = 0, losses = 0,
                                  date_added = clock i, biggest_win = PyInt 0,
                                  lowest_loss = PyInt 0\<rparr>
                       else r0 i)
          in Inr (r, if \<exists>i\<in>set items. r0 i = None
                     then st\<lparr>ratings_file := (ratings_file st)(theme := Whole r),
                             writes := writes st @ [RatingsWrite theme r]\<rparr>
                     else st)) \<and>
   (\<forall>r st'. initialize_ratings st clock theme items = Inr (r, st') \<longrightarrow>
      initialize_ratings st' clock' theme items = Inr (r, st'))"
proof (intro conjI allI impI)
  show "initialize_ratings st clock theme items =
     (case load_ratings st theme of
        Inl e \<Rightarrow> Inl e
      | Inr r0 \<Rightarrow>
          let r = (\<lambda>i. if i \<in> set items \<and> r0 i = None
                       then Some \<lparr>rating = PyInt 1000, plays = 0, wins = 0, losses = 0,
                                  date_added = clock i, biggest_win = PyInt 0,
                                  lowest_loss = PyInt 0\<rparr>
                       else r0 i)
          in Inr (r, if \<exists>i\<in>set items. r0 i = None
                     then st\<lparr>ratings_file := (ratings_file st)(theme := Whole r),
                             writes := writes st @ [RatingsWrite theme r]\<rparr>
                     else st))"
  proof (cases "load_ratings st theme")
    case (Inl e)
    then show ?thesis by (simp add: initialize_ratings_Inl)
  next
    case (Inr r0)
    show ?thesis
      unfolding initialize_ratings_eq[OF Inr] Inr sum.case Let_def new_record_def save_ratings_eq
      by (rule refl)
  qed
next
  fix r st'
  assume "initialize_ratings st clock theme items = Inr (r, st')"
  then show "initialize_ratings st' clock' theme items = Inr (r, st')"
    by (rule initialize_ratings_again)
qed

theorem initialize_ratings_creates_missing_once_witness:
  "(\<exists>r st'. initialize_ratings fresh_store (\<lambda>i. ''now'') ''t'' [''X''] = Inr (r, st') \<and>
      r ''X'' = Some \<lparr>rating = PyInt 1000, plays = 0, wins = 0, losses = 0, date_added = ''now'',
                      biggest_win = PyInt 0, lowest_loss = PyInt 0\<rparr> \<and>
      length (writes st') = 1 \<and>
      initialize_ratings st' (\<lambda>i. ''later'') ''t'' [''X''] = Inr (r, st'))"
proof -
  note t = initialize_ratings_creates_missing_once[of fresh_store "\<lambda>i. ''now''" "''t''"
      "[''X'']" "\<lambda>i. ''later''"]
  have w: "writes fresh_store = []" by (simp add: fresh_store_def)
  from t[THEN conjunct1] obtain r st' where
    run: "initialize_ratings fresh_store (\<lambda>i. ''now'') ''t'' [''X''] = Inr (r, st')"
    and r: "r ''X'' = Some \<lparr>rating = PyInt 1000, plays = 0, wins = 0, losses = 0,
                            date_added = ''now'', biggest_win = PyInt 0, lowest_loss = PyInt 0\<rparr>"
    and st': "length (writes st') = 1"
    by (simp add: load_fresh Let_def w)
  from t[THEN conjunct2] run
  have "initialize_ratings st' (\<lambda>i. ''later'') ''t'' [''X''] = Inr (r, st')" by blast
  then show ?thesis using run r st' by blast
qed

section \<open>More on rounding\<close>

lemma max_float_pos: "0 < max_float"
  using max_float_ge pow2_pos[of 1023] by linarith

lemma rnd_1: "rnd 1 = 1"
  using rnd_exact[of 1 0] by simp

lemma rnd_of_int: "\<bar>n\<bar> < 2 ^ 53 \<Longrightarrow> rnd (of_int n) = of_int n"
  using rnd_exact[of n 0] by simp

lemma rnd_32: "rnd 32 = 32"
  using rnd_of_int[of 32] by simp

lemma rnd_abs_le:
  assumes "\<bar>x\<bar> \<le> c" and "rnd c = c"
  shows "\<bar>rnd x\<bar> \<le> c"
proof -
  have "rnd x \<le> rnd c" using assms(1) by (intro rnd_mono) linarith
  moreover have "rnd (- c) \<le> rnd x" using assms(1) by (intro rnd_mono) linarith
  ultimately show ?thesis using assms(2) by (simp add: rnd_minus abs_le_iff)
qed

lemma le_pow2_1023: "\<bar>x\<bar> \<le> 2 powi k \<Longrightarrow> k \<le> 1023 \<Longrightarrow> \<bar>x :: real\<bar> \<le> 2 powi 1023"
  using pow2_le_iff[of k 1023] by linarith

lemma fin_rnd_le: "\<bar>rnd v\<bar> \<le> 2 powi 1023 \<Longrightarrow> fin v = Fin (rnd v)"
  using max_float_ge by (simp add: fin_def Let_def) linarith

lemma rhe_near:
  assumes "of_int n \<le> x" "x < of_int n + 1 / 2"
  shows "rhe x = n"
proof -
  have "\<lfloor>x\<rfloor> = n" using assms by (intro floor_unique) linarith+
  then show ?thesis using assms unfolding rhe_def Let_def by simp
qed

lemma rhe_near_below:
  assumes "of_int n - 1 / 2 < x" "x \<le> of_int n"
  shows "rhe x = n"
proof -
  have "rhe (- x) = - n" using assms by (intro rhe_near) simp_all
  then show ?thesis by (simp add: rhe_minus)
qed

lemma unit_roundoff_bounds: "0 < unit_roundoff" "unit_roundoff \<le> 1 / 16"
  by (simp_all add: unit_roundoff_def)

lemma rnd_factor:
  assumes "2 powi k \<le> v" "- 1022 \<le> k"
  shows "v * (1 - unit_roundoff) \<le> rnd v" "rnd v \<le> v * (1 + unit_roundoff)"
proof -
  have "(2::real) powi (- 1022) \<le> 2 powi k" using assms(2) by (simp only: pow2_le_iff)
  then have v: "2 powi (- 1022) \<le> v" using assms(1) by linarith
  then have pos: "0 < v" using pow2_pos[of "- 1022"] by linarith
  have "2 powi (- 1022) \<le> \<bar>v\<bar>" using v pos by linarith
  then have "\<bar>rnd v - v\<bar> \<le> \<bar>v\<bar> / 2 ^ 53" by (rule rnd_rel_err)
  then have e: "\<bar>rnd v - v\<bar> \<le> v * unit_roundoff" using pos by (simp add: unit_roundoff_def)
  have "v * (1 - unit_roundoff) = v - v * unit_roundoff" by (simp add: right_diff_distrib)
  then show "v * (1 - unit_roundoff) \<le> rnd v" using e by linarith
  have "v * (1 + unit_roundoff) = v + v * unit_roundoff" by (simp add: distrib_left)
  then show "rnd v \<le> v * (1 + unit_roundoff)" using e by linarith
qed

text \<open>A rounded value is a multiple of its quantum by an integer of at most 54 bits.\<close>

lemma rnd_repr: "\<exists>n. rnd x = of_int n * 2 powi quantum x \<and> \<bar>n\<bar> \<le> 2 ^ 53"
proof (cases "x = 0")
  case True
  have "rnd x = of_int 0 * 2 powi quantum x" by (simp add: True rnd_0)
  then show ?thesis by (intro exI[of _ 0]) simp
next
  case False
  then have pos: "0 < \<bar>x\<bar>" by simp
  define k where "k = \<lfloor>log 2 \<bar>x\<bar>\<rfloor>"
  define q where "q = quantum x"
  have q: "k - 52 \<le> q" by (simp add: q_def quantum_def k_def)
  have "\<bar>x\<bar> < 2 powi (k + 1)" unfolding k_def using pos by (rule log2_bounds(2))
  also have "(2::real) powi (k + 1) = 2 powi 53 * 2 powi (k - 52)"
  proof -
    have e: "k + 1 = 53 + (k - 52)" by simp
    show ?thesis by (subst e) (rule pow2_add)
  qed
  also have "\<dots> \<le> 2 powi 53 * 2 powi q"
  proof -
    have "(2::real) powi (k - 52) \<le> 2 powi q" using q by (simp only: pow2_le_iff)
    then show ?thesis by (intro mult_left_mono less_imp_le[OF pow2_pos])
  qed
  finally have "\<bar>x\<bar> / 2 powi q < 2 powi 53"
    using pow2_pos[of q] by (simp add: pos_divide_less_eq)
  then have "\<bar>x / 2 powi q\<bar> < 2 powi 53"
    using pow2_pos[of q] by (simp add: abs_divide)
  moreover have c: "(of_int (2 ^ 53) :: real) = 2 powi 53" by simp
  ultimately have b: "- of_int (2 ^ 53) \<le> x / 2 powi q" "x / 2 powi q \<le> of_int (2 ^ 53)"
    unfolding c by linarith+
  have "rhe (x / 2 powi q) \<le> rhe (of_int (2 ^ 53))" using b(2) by (rule rhe_mono)
  moreover have "rhe (- of_int (2 ^ 53)) \<le> rhe (x / 2 powi q)" using b(1) by (rule rhe_mono)
  ultimately have "\<bar>rhe (x / 2 powi q)\<bar> \<le> 2 ^ 53"
    by (simp only: rhe_of_int rhe_minus)
  moreover have "rnd x = of_int (rhe (x / 2 powi q)) * 2 powi quantum x"
    by (simp add: rnd_def round_to_def q_def)
  ultimately show ?thesis by blast
qed

lemma rnd_exact_le:
  assumes "\<bar>m\<bar> \<le> 2 ^ 53" "- 1074 \<le> e"
  shows "rnd (of_int m * 2 powi e) = of_int m * 2 powi e"
proof (cases "\<bar>m\<bar> < 2 ^ 53")
  case True
  then show ?thesis using assms(2) by (rule rnd_exact)
next
  case False
  then have "m = 2 ^ 53 \<or> m = - (2 ^ 53)" using assms(1) by linarith
  moreover have p: "(2::real) ^ 53 * 2 powi e = 2 powi (53 + e)"
    by (simp add: power_int_add)
  moreover have "rnd (2 powi (53 + e)) = 2 powi (53 + e)" using assms(2) by (intro rnd_pow2) simp
  ultimately show ?thesis by (auto simp: rnd_minus)
qed

lemma rnd_idem: "rnd (rnd x) = rnd x"
proof -
  from rnd_repr[of x] obtain n where n: "rnd x = of_int n * 2 powi quantum x" "\<bar>n\<bar> \<le> 2 ^ 53"
    by blast
  show ?thesis unfolding n(1) using n(2) quantum_ge by (rule rnd_exact_le)
qed

lemma rnd_times_32: "rnd (32 * rnd x) = 32 * rnd x"
proof -
  from rnd_repr[of x] obtain n where n: "rnd x = of_int n * 2 powi quantum x" "\<bar>n\<bar> \<le> 2 ^ 53"
    by blast
  have "32 * rnd x = of_int n * 2 powi (quantum x + 5)"
    unfolding n(1) by (simp add: power_int_add)
  moreover have "rnd (of_int n * 2 powi (quantum x + 5)) = of_int n * 2 powi (quantum x + 5)"
    using n(2) quantum_ge[of x] by (intro rnd_exact_le) simp_all
  ultimately show ?thesis by simp
qed

lemma quantum_pow2: "quantum (2 powi k) = max (k - 52) (- 1074)"
proof -
  have "k < k + 1" by simp
  then have "(2::real) powi k < 2 powi (k + 1)" by (simp only: pow2_less_iff)
  then show ?thesis using pow2_pos[of k] by (intro quantum_eqI) simp_all
qed

lemma quantum_le:
  assumes "0 < x" "x \<le> 2 powi k"
  shows "quantum x \<le> max (k - 52) (- 1074)"
  using quantum_mono[OF assms] by (simp only: quantum_pow2)

lemma rnd_err_unit:
  assumes "\<bar>v\<bar> \<le> 1"
  shows "\<bar>rnd v - v\<bar> \<le> unit_roundoff"
proof (cases "v = 0")
  case True
  then show ?thesis using unit_roundoff_bounds(1) by (simp add: rnd_0)
next
  case False
  then have "0 < \<bar>v\<bar>" "\<bar>v\<bar> \<le> 2 powi 0" using assms by simp_all
  then have "quantum \<bar>v\<bar> \<le> max (0 - 52) (- 1074)" by (rule quantum_le)
  then have "quantum v \<le> - 52" by (simp add: quantum_def)
  then have "(2::real) powi quantum v \<le> 2 powi (- 52)" by (simp only: pow2_le_iff)
  moreover have "(2::real) powi (- 52) / 2 = unit_roundoff"
    by (simp add: unit_roundoff_def power_int_minus)
  ultimately show ?thesis using rnd_err[of v] by linarith
qed

lemma rnd_one_plus_small:
  assumes "0 \<le> p" "p < 2 powi (- 53)"
  shows "rnd (1 + p) = 1"
proof -
  have "(2::real) powi (- 53) \<le> 2 powi (- 1)" by (simp only: pow2_le_iff)
  then have p1: "p \<le> 1 / 2" using assms(2) by simp
  have "(2::real) powi 0 \<le> \<bar>1 + p\<bar>" "\<bar>1 + p\<bar> < 2 powi (0 + 1)" using assms(1) p1 by simp_all
  then have r: "rnd (1 + p) = round_to (- 52) (1 + p)" by (subst rnd_eqI[where k = 0]) simp_all
  have "p / 2 powi (- 52) < 2 powi (- 53) / 2 powi (- 52)"
    using assms(2) by (intro divide_strict_right_mono pow2_pos)
  also have "(2::real) powi (- 53) / 2 powi (- 52) = 2 powi (- 53 - (- 52))"
    by (rule power_int_diff[symmetric]) simp
  also have "\<dots> = 1 / 2" by simp
  finally have a: "p / 2 powi (- 52) < 1 / 2" .
  have b: "0 \<le> p / 2 powi (- 52)" using assms(1) by simp
  have c: "(1 + p) / 2 powi (- 52) = of_int (2 ^ 52) + p / 2 powi (- 52)"
    by (simp add: add_divide_distrib power_int_minus)
  have "rhe ((1 + p) / 2 powi (- 52)) = 2 ^ 52"
    unfolding c using a b by (intro rhe_near) linarith+
  then show ?thesis unfolding r round_to_def by (simp add: power_int_minus)
qed

lemma rnd_one_minus_tiny:
  assumes "0 \<le> d" "d \<le> 2 powi (- 55)"
  shows "rnd (1 - d) = 1"
proof (cases "d = 0")
  case True
  then show ?thesis by (simp add: rnd_1)
next
  case False
  then have dpos: "0 < d" using assms(1) by simp
  have "(2::real) powi (- 55) \<le> 2 powi (- 1)" by (simp only: pow2_le_iff)
  then have d1: "d \<le> 1 / 2" using assms(2) by simp
  have "(2::real) powi (- 1) \<le> \<bar>1 - d\<bar>" "\<bar>1 - d\<bar> < 2 powi (- 1 + 1)" using dpos d1 by simp_all
  then have r: "rnd (1 - d) = round_to (- 53) (1 - d)" by (subst rnd_eqI[where k = "- 1"]) simp_all
  have "d / 2 powi (- 53) \<le> 2 powi (- 55) / 2 powi (- 53)"
    using assms(2) by (intro divide_right_mono less_imp_le[OF pow2_pos])
  also have "(2::real) powi (- 55) / 2 powi (- 53) = 2 powi (- 55 - (- 53))"
    by (rule power_int_diff[symmetric]) simp
  also have "\<dots> = 1 / 4" by simp
  finally have a: "d / 2 powi (- 53) \<le> 1 / 4" .
  have b: "0 \<le> d / 2 powi (- 53)" using assms(1) by simp
  have c: "(1 - d) / 2 powi (- 53) = of_int (2 ^ 53) - d / 2 powi (- 53)"
    by (simp add: diff_divide_distrib power_int_minus)
  have "rhe ((1 - d) / 2 powi (- 53)) = 2 ^ 53"
    unfolding c using a b by (intro rhe_near_below) linarith+
  then show ?thesis unfolding r round_to_def by (simp add: power_int_minus)
qed

lemma rnd_max_plus_one: "rnd (max_float + 1) = max_float"
proof -
  define P :: real where "P = 2 powi 971"
  have P: "0 < P" unfolding P_def by (rule pow2_pos)
  have "(2::real) powi 1 \<le> 2 powi 971" by (simp only: pow2_le_iff)
  then have P2: "2 \<le> P" by (simp add: P_def)
  have m: "max_float = (2 ^ 53 - 1) * P" unfolding P_def by (rule max_float_powi)
  have lo: "2 powi 1023 \<le> \<bar>max_float + 1\<bar>" using max_float_ge by simp
  have "(1024::int) = 53 + 971" by simp
  then have "(2::real) powi 1024 = 2 powi 53 * 2 powi 971" by (simp only: pow2_add)
  also have "\<dots> = 2 ^ 53 * P" by (simp only: P_def power_int_numeral)
  finally have top: "(2::real) powi 1024 = 2 ^ 53 * P" .
  have "max_float + 1 < 2 ^ 53 * P" unfolding m using P2 by (simp add: left_diff_distrib)
  then have "\<bar>max_float + 1\<bar> < 2 powi 1024"
    using max_float_pos by (simp only: top)
  moreover have "(1023::int) + 1 = 1024" by simp
  ultimately have hi: "\<bar>max_float + 1\<bar> < 2 powi (1023 + 1)" by (simp only:)
  have r: "rnd (max_float + 1) = round_to 971 (max_float + 1)"
    using rnd_eqI[OF lo hi] by simp
  have c: "(max_float + 1) / P = of_int (2 ^ 53 - 1) + 1 / P"
    unfolding m using P by (simp add: add_divide_distrib)
  have "(4::real) \<le> P"
  proof -
    have "(2::real) powi 2 \<le> 2 powi 971" by (simp only: pow2_le_iff)
    then show ?thesis by (simp add: P_def)
  qed
  then have "1 / P \<le> 1 / 4" using P by (simp add: field_simps)
  then have a: "1 / P < 1 / 2" by linarith
  have b: "0 \<le> 1 / P" using P by simp
  have h: "rhe ((max_float + 1) / P) = 2 ^ 53 - 1"
    unfolding c using a b by (intro rhe_near) linarith+
  have "rnd (max_float + 1) = of_int (rhe ((max_float + 1) / P)) * P"
    unfolding r round_to_def P_def ..
  also have "\<dots> = of_int (2 ^ 53 - 1) * P" by (simp only: h)
  also have "\<dots> = max_float" unfolding m by simp
  finally show ?thesis .
qed

lemma fin_one_plus:
  assumes "0 \<le> p" "p \<le> max_float"
  shows "fin (1 + p) = Fin (rnd (1 + p))" and "1 \<le> rnd (1 + p)" and "rnd (1 + p) \<le> max_float"
proof -
  have "rnd 1 \<le> rnd (1 + p)" using assms(1) by (intro rnd_mono) simp
  then show lo: "1 \<le> rnd (1 + p)" by (simp only: rnd_1)
  have "rnd (1 + p) \<le> rnd (max_float + 1)" using assms(2) by (intro rnd_mono) simp
  then show hi: "rnd (1 + p) \<le> max_float" by (simp only: rnd_max_plus_one)
  show "fin (1 + p) = Fin (rnd (1 + p))"
    using lo hi max_float_pos by (simp add: fin_def Let_def)
qed

lemma fin_reciprocal:
  assumes "1 \<le> s" "s \<le> max_float"
  shows "fin (1 / s) = Fin (rnd (1 / s))" and "2 powi (- 1024) \<le> rnd (1 / s)"
    and "rnd (1 / s) \<le> 1"
proof -
  have "0 \<le> 1 / s" "1 / s \<le> 1" using assms(1) by simp_all
  then have "rnd (1 / s) \<le> rnd 1" by (intro rnd_mono)
  then show hi: "rnd (1 / s) \<le> 1" by (simp only: rnd_1)
  have "s < 2 powi 1024" using assms(2) max_float_less by linarith
  then have "1 / 2 powi 1024 \<le> 1 / s"
    using assms(1) by (intro divide_left_mono) (simp_all add: pow2_pos)
  then have "2 powi (- 1024) \<le> 1 / s" by (simp only: power_int_minus inverse_eq_divide)
  then have "rnd (2 powi (- 1024)) \<le> rnd (1 / s)" by (rule rnd_mono)
  moreover have "rnd (2 powi (- 1024)) = 2 powi (- 1024)" by (rule rnd_pow2) simp
  ultimately show lo: "2 powi (- 1024) \<le> rnd (1 / s)" by (simp only:)
  have "0 \<le> rnd (1 / s)" using lo pow2_pos[of "- 1024"] by linarith
  then have "\<bar>rnd (1 / s)\<bar> \<le> 2 powi 0" using hi by simp
  then have "\<bar>rnd (1 / s)\<bar> \<le> 2 powi 1023" by (rule le_pow2_1023) simp
  then show "fin (1 / s) = Fin (rnd (1 / s))" by (rule fin_rnd_le)
qed

lemma ulp_pos: "0 < ulp x"
  unfolding ulp_def by (rule pow2_pos)

lemma ulp_normal:
  assumes "2 powi (- 1022) \<le> x"
  shows "ulp x \<le> x * 2 powi (- 52)"
proof -
  have pos: "0 < x" using assms pow2_pos[of "- 1022"] by linarith
  define k where "k = \<lfloor>log 2 x\<rfloor>"
  have b: "2 powi k \<le> x" "x < 2 powi (k + 1)" unfolding k_def using pos by (rule log2_bounds)+
  have "(2::real) powi (- 1022) < 2 powi (k + 1)" using assms b(2) by linarith
  then have "- 1022 < k + 1" by (simp only: pow2_less_iff)
  then have k: "- 1022 \<le> k" by simp
  have "quantum x = max (k - 52) (- 1074)"
    using b pos by (intro quantum_eqI) simp_all
  then have "quantum x = k - 52" using k by simp
  moreover have "(2::real) powi (k + - 52) = 2 powi k * 2 powi (- 52)" by (rule pow2_add)
  ultimately have "ulp x = 2 powi k * 2 powi (- 52)" by (simp add: ulp_def)
  also have "\<dots> \<le> x * 2 powi (- 52)"
    using b(1) by (intro mult_right_mono less_imp_le[OF pow2_pos])
  finally show ?thesis .
qed

lemma ulp_le:
  assumes "0 < x" "x \<le> 2 powi k"
  shows "ulp x \<le> 2 powi (max (k - 52) (- 1074))"
  unfolding ulp_def using quantum_le[OF assms] by (simp only: pow2_le_iff)

lemma rounded_pow_accurate: "pow_accurate rounded_pow"
  unfolding pow_accurate_def
proof
  fix y :: real
  define x :: real where "x = 10 powr y"
  have pos: "0 < x" by (simp add: x_def)
  have nn: "0 \<le> rnd x" using pos by (intro rnd_nonneg) simp
  have over: "max_float \<le> x" if "max_float < rnd x"
  proof (rule ccontr)
    assume "\<not> max_float \<le> x"
    then have "rnd x \<le> rnd max_float" by (intro rnd_mono) simp
    then show False using that by (simp add: max_float_exact)
  qed
  have "\<bar>rnd x - x\<bar> \<le> ulp x / 2" unfolding ulp_def by (rule rnd_err)
  then have err: "\<bar>rnd x - x\<bar> \<le> ulp x" using ulp_pos[of x] by linarith
  show "case rounded_pow y of
          Fin r \<Rightarrow> 0 \<le> r \<and> r \<le> max_float \<and> \<bar>r - 10 powr y\<bar> \<le> ulp (10 powr y)
        | PInf \<Rightarrow> max_float \<le> 10 powr y
        | _ \<Rightarrow> False"
    unfolding rounded_pow_def x_def[symmetric] fin_def Let_def
    using nn over err max_float_pos by auto
qed

section \<open>The Elo change: values and exceptions\<close>

lemma calculate_elo_change_eq:
  "calculate_elo_change c_pow winner_rating loser_rating k =
     and_then (expected_score c_pow winner_rating loser_rating) (\<lambda>expected_winner.
     and_then (expected_score c_pow loser_rating winner_rating) (\<lambda>expected_loser.
     and_then (to_float k) (\<lambda>kf.
     Inr (fmul kf (fsub (Fin 1) expected_winner), fmul kf (fsub (Fin 0) expected_loser)))))"
proof -
  have assoc: "and_then (and_then m f) g = and_then m (\<lambda>x. and_then (f x) g)"
    for m :: "py_error + 'a" and f :: "'a \<Rightarrow> py_error + 'b" and g :: "'b \<Rightarrow> py_error + 'c"
    by (cases m) simp_all
  show ?thesis
    by (simp add: calculate_elo_change_def expected_score_def assoc)
qed

lemma val_bound: "ordinary a \<Longrightarrow> \<bar>val a\<bar> \<le> 2 powi 1000"
proof (induction a rule: ordinary.induct)
  case (1 n)
  then have "\<bar>n\<bar> \<le> 2 ^ 40" by simp
  then have "(of_int \<bar>n\<bar> :: real) \<le> of_int (2 ^ 40)" by (simp only: of_int_le_iff)
  then have "\<bar>of_int n :: real\<bar> \<le> 2 powi 40" by simp
  moreover have "(2::real) powi 40 \<le> 2 powi 1000" by (simp only: pow2_le_iff)
  ultimately show ?case by simp
qed simp_all

lemma to_float_ordinary: "ordinary a \<Longrightarrow> to_float a = Inr (Fin (val a))"
proof (induction a rule: ordinary.induct)
  case (1 n)
  then have "\<bar>n\<bar> < 2 ^ 53" by simp
  then show ?case by (simp add: fin_of_int finite_or_raise_def)
qed simp_all

lemma to_float_32: "to_float (PyInt 32) = Inr (Fin 32)" "to_float (PyInt 400) = Inr (Fin 400)"
  using fin_of_int[of 32] fin_of_int[of 400] by (simp_all add: finite_or_raise_def)

text \<open>
  The exponent handed to \<^verbatim>\<open>math.pow\<close>: the difference of two ordinary numbers, rounded if it
  is taken in floats, divided by 400 and rounded. Two integers are subtracted exactly, and
  their difference is a float.
\<close>

lemma difference_ordinary:
  assumes "ordinary a" "ordinary b"
  shows "and_then (nsub b a) (\<lambda>d. ndiv d (PyInt 400)) =
           Inr (Fin (rnd (rnd (val b - val a) / 400)))"
proof -
  define A B where "A = val a" and "B = val b"
  have "\<bar>B - A\<bar> \<le> 2 powi 1000 + 2 powi 1000"
    using val_bound[OF assms(1)] val_bound[OF assms(2)] unfolding A_def B_def by linarith
  also have "(2::real) powi 1000 + 2 powi 1000 = 2 powi (1000 + 1)" by (simp only: pow2_add) simp
  finally have g: "\<bar>B - A\<bar> \<le> 2 powi 1001" by simp
  then have "\<bar>B - A\<bar> \<le> 2 powi 1023" by (rule le_pow2_1023) simp
  then have f1: "fin (B - A) = Fin (rnd (B - A))" by (rule fin_Fin')
  have "rnd (2 powi 1001) = 2 powi 1001" by (rule rnd_pow2) simp
  with g have r: "\<bar>rnd (B - A)\<bar> \<le> 2 powi 1001" by (rule rnd_abs_le)
  have "\<bar>rnd (B - A) / 400\<bar> \<le> \<bar>rnd (B - A)\<bar>" by simp
  then have "\<bar>rnd (B - A) / 400\<bar> \<le> 2 powi 1001" using r by linarith
  then have "\<bar>rnd (B - A) / 400\<bar> \<le> 2 powi 1023" by (rule le_pow2_1023) simp
  then have f2: "fin (rnd (B - A) / 400) = Fin (rnd (rnd (B - A) / 400))" by (rule fin_Fin')
  have floats: "and_then (float_op (\<lambda>x y. PyFloat (fsub x y)) b a) (\<lambda>d. ndiv d (PyInt 400)) =
           Inr (Fin (rnd (rnd (B - A) / 400)))"
    by (simp add: float_op_def to_float_ordinary[OF assms(1)] to_float_ordinary[OF assms(2)]
        fsub_def f1 f2 fin_400 finite_or_raise_def flip: A_def B_def)
  show ?thesis
  proof (cases "\<exists>m n. a = PyInt m \<and> b = PyInt n")
    case True
    then obtain m n where mn: "a = PyInt m" "b = PyInt n" by blast
    have "\<bar>n - m\<bar> < 2 ^ 53" using assms by (simp add: mn)
    then have "rnd (of_int (n - m)) = of_int (n - m)" by (rule rnd_of_int)
    then have e: "rnd (B - A) = of_int (n - m)" by (simp add: A_def B_def mn)
    have q: "(of_int (n - m) :: real) / of_int 400 = rnd (B - A) / 400" by (simp add: e)
    have "ndiv (PyInt (n - m)) (PyInt 400) = Inr (Fin (rnd (rnd (B - A) / 400)))"
      unfolding ndiv.simps q f2 by (simp add: finite_or_raise_def)
    then show ?thesis by (simp add: mn A_def B_def del: ndiv.simps)
  next
    case False
    then have "nsub b a = float_op (\<lambda>x y. PyFloat (fsub x y)) b a"
      by (cases a; cases b) simp_all
    then show ?thesis using floats by (simp add: A_def B_def)
  qed
qed

lemma expected_score_ordinary:
  assumes "ordinary a" "ordinary b"
  shows "expected_score c_pow a b =
           and_then (math_pow10 c_pow (Fin (rnd (rnd (val b - val a) / 400))))
             (\<lambda>p. fdiv (Fin 1) (fadd (Fin 1) p))"
proof -
  from difference_ordinary[OF assms] obtain d where
    "nsub b a = Inr d" "ndiv d (PyInt 400) = Inr (Fin (rnd (rnd (val b - val a) / 400)))"
    by (auto simp: and_then_Inr_iff)
  then show ?thesis by (simp add: expected_score_def)
qed

lemma pow_cases:
  assumes "pow_accurate c_pow"
  shows "(math_pow10 c_pow (Fin y) = Inl OverflowError \<and> max_float \<le> 10 powr y) \<or>
         (\<exists>p. math_pow10 c_pow (Fin y) = Inr (Fin p) \<and> 0 \<le> p \<and> p \<le> max_float \<and>
              \<bar>p - 10 powr y\<bar> \<le> ulp (10 powr y))"
proof (cases "y = 0")
  case True
  have "(1::real) \<le> 2 powi 1023" by (rule one_le_power_int) simp_all
  then have "1 \<le> max_float" using max_float_ge by linarith
  then show ?thesis using ulp_pos[of 1] by (simp add: True)
next
  case False
  from assms have "case c_pow y of
      Fin r \<Rightarrow> 0 \<le> r \<and> r \<le> max_float \<and> \<bar>r - 10 powr y\<bar> \<le> ulp (10 powr y)
    | PInf \<Rightarrow> max_float \<le> 10 powr y
    | _ \<Rightarrow> False"
    unfolding pow_accurate_def by blast
  then show ?thesis using False by (cases "c_pow y") simp_all
qed

lemma pow_overflows:
  assumes "pow_accurate c_pow" "2 powi 1025 \<le> 10 powr y"
  shows "math_pow10 c_pow (Fin y) = Inl OverflowError"
proof -
  define x :: real where "x = 10 powr y"
  have big: "2 powi 1025 \<le> x" using assms(2) by (simp add: x_def)
  have "(2::real) powi (- 1022) \<le> 2 powi 1025" by (simp only: pow2_le_iff)
  then have u: "ulp x \<le> x * 2 powi (- 52)" using big by (intro ulp_normal) linarith
  have "(2::real) powi (- 52) \<le> 2 powi (- 1)" by (simp only: pow2_le_iff)
  then have h: "(2::real) powi (- 52) \<le> 1 / 2" by simp
  have xpos: "0 < x" by (simp add: x_def)
  have "x * 2 powi (- 52) \<le> x * (1 / 2)" using h xpos by (intro mult_left_mono) simp_all
  then have u2: "ulp x \<le> x / 2" using u by simp
  have "(1025::int) = 1 + 1024" by simp
  then have "(2::real) powi 1025 = 2 powi 1 * 2 powi 1024" by (simp only: pow2_add)
  then have half: "2 powi 1024 \<le> x / 2" using big by simp
  have no: False if "0 \<le> p" "p \<le> max_float" "\<bar>p - x\<bar> \<le> ulp x" for p
    using that u2 half max_float_less by linarith
  from pow_cases[OF assms(1), of y] show ?thesis using no unfolding x_def by blast
qed

lemma pow_returns:
  assumes "pow_accurate c_pow" "10 powr y < max_float"
  shows "\<exists>p. math_pow10 c_pow (Fin y) = Inr (Fin p) \<and> 0 \<le> p \<and> p \<le> max_float \<and>
              \<bar>p - 10 powr y\<bar> \<le> ulp (10 powr y)"
  using pow_cases[OF assms(1), of y] assms(2) by auto

lemma score_value:
  assumes "0 \<le> p" "p \<le> max_float"
  shows "fdiv (Fin 1) (fadd (Fin 1) (Fin p)) = Inr (Fin (rnd (1 / rnd (1 + p))))"
    and "2 powi (- 1024) \<le> rnd (1 / rnd (1 + p))" and "rnd (1 / rnd (1 + p)) \<le> 1"
proof -
  note s = fin_one_plus[OF assms]
  note e = fin_reciprocal[OF s(2,3)]
  show "fdiv (Fin 1) (fadd (Fin 1) (Fin p)) = Inr (Fin (rnd (1 / rnd (1 + p))))"
    using s(2) by (simp add: s(1) e(1))
  show "2 powi (- 1024) \<le> rnd (1 / rnd (1 + p))" "rnd (1 / rnd (1 + p)) \<le> 1"
    by (rule e(2), rule e(3))
qed

lemma changes_of_scores:
  assumes "0 \<le> e1" "e1 \<le> 1" "0 \<le> e2" "e2 \<le> 1"
  shows "fmul (Fin 32) (fsub (Fin 1) (Fin e1)) = Fin (32 * rnd (1 - e1))"
    and "fmul (Fin 32) (fsub (Fin 0) (Fin e2)) = Fin (- (32 * rnd e2))"
    and "0 \<le> rnd (1 - e1)" and "rnd (1 - e1) \<le> 1" and "0 \<le> rnd e2" and "rnd e2 \<le> 1"
proof -
  have r1: "rnd (1 - e1) \<le> rnd 1" "rnd 0 \<le> rnd (1 - e1)" using assms by (intro rnd_mono; simp)+
  then show w: "0 \<le> rnd (1 - e1)" "rnd (1 - e1) \<le> 1" by (simp_all add: rnd_0 rnd_1)
  have r2: "rnd e2 \<le> rnd 1" "rnd 0 \<le> rnd e2" using assms by (intro rnd_mono; simp)+
  then show l: "0 \<le> rnd e2" "rnd e2 \<le> 1" by (simp_all add: rnd_0 rnd_1)
  have small: "\<bar>v\<bar> \<le> 32 \<Longrightarrow> \<bar>v\<bar> \<le> 2 powi 1023" for v :: real
  proof -
    assume "\<bar>v\<bar> \<le> 32"
    then have "\<bar>v\<bar> \<le> 2 powi 5" by simp
    then show ?thesis by (rule le_pow2_1023) simp
  qed
  have f1: "fin (1 - e1) = Fin (rnd (1 - e1))" using w by (intro fin_rnd_le small) simp
  have f2: "fin (- e2) = Fin (- rnd e2)" using l by (simp add: fin_rnd_le small rnd_minus)
  have m1: "fin (32 * rnd (1 - e1)) = Fin (32 * rnd (1 - e1))"
    using w by (subst fin_rnd_le) (simp_all add: rnd_times_32 small)
  have m2: "fin (- (32 * rnd e2)) = Fin (- (32 * rnd e2))"
    using l by (subst fin_rnd_le) (simp_all add: rnd_minus rnd_times_32 small)
  show "fmul (Fin 32) (fsub (Fin 1) (Fin e1)) = Fin (32 * rnd (1 - e1))"
    by (simp add: fsub_def f1 m1)
  show "fmul (Fin 32) (fsub (Fin 0) (Fin e2)) = Fin (- (32 * rnd e2))"
    by (simp add: fsub_def f2 m2)
qed

lemma exponent_swap: "rnd (rnd (a - b) / 400) = - rnd (rnd (b - a) / 400)"
proof -
  have "a - b = - (b - a)" by simp
  then have "rnd (a - b) = - rnd (b - a)" by (simp only: rnd_minus)
  then show ?thesis by (simp add: rnd_minus)
qed

text \<open>
  What \<^verbatim>\<open>calculate_elo_change\<close> does on ordinary ratings: either a power leaves the floats
  and \<^verbatim>\<open>math.pow\<close> raises, or the two changes are 32 times the rounded complement of the
  winner's score and minus 32 times the loser's score; the products by 32 do not round.
\<close>

lemma elo_change_cases:
  assumes "pow_accurate c_pow" "ordinary a" "ordinary b"
  defines "y \<equiv> rnd (rnd (val b - val a) / 400)"
  shows "(calculate_elo_change c_pow a b (PyInt 32) = Inl OverflowError \<and>
          (max_float \<le> 10 powr y \<or> max_float \<le> 10 powr (- y))) \<or>
         (\<exists>p1 p2. 0 \<le> p1 \<and> p1 \<le> max_float \<and> \<bar>p1 - 10 powr y\<bar> \<le> ulp (10 powr y) \<and>
            0 \<le> p2 \<and> p2 \<le> max_float \<and> \<bar>p2 - 10 powr (- y)\<bar> \<le> ulp (10 powr (- y)) \<and>
            math_pow10 c_pow (Fin y) = Inr (Fin p1) \<and>
            math_pow10 c_pow (Fin (- y)) = Inr (Fin p2) \<and>
            calculate_elo_change c_pow a b (PyInt 32) =
              Inr (Fin (32 * rnd (1 - rnd (1 / rnd (1 + p1)))),
                   Fin (- (32 * rnd (1 / rnd (1 + p2))))))"
proof -
  have s1: "expected_score c_pow a b =
      and_then (math_pow10 c_pow (Fin y)) (\<lambda>p. fdiv (Fin 1) (fadd (Fin 1) p))"
    unfolding y_def by (rule expected_score_ordinary[OF assms(2,3)])
  have s2: "expected_score c_pow b a =
      and_then (math_pow10 c_pow (Fin (- y))) (\<lambda>p. fdiv (Fin 1) (fadd (Fin 1) p))"
    unfolding y_def exponent_swap[of "val a" "val b", symmetric]
    by (rule expected_score_ordinary[OF assms(3,2)])
  from pow_cases[OF assms(1), of y] show ?thesis
  proof
    assume o: "math_pow10 c_pow (Fin y) = Inl OverflowError \<and> max_float \<le> 10 powr y"
    then show ?thesis
      by (simp add: calculate_elo_change_eq s1 conjunct1[OF o] del: math_pow10.simps)
  next
    assume "\<exists>p. math_pow10 c_pow (Fin y) = Inr (Fin p) \<and> 0 \<le> p \<and> p \<le> max_float \<and>
              \<bar>p - 10 powr y\<bar> \<le> ulp (10 powr y)"
    then obtain p1 where p1: "math_pow10 c_pow (Fin y) = Inr (Fin p1)" "0 \<le> p1" "p1 \<le> max_float"
      "\<bar>p1 - 10 powr y\<bar> \<le> ulp (10 powr y)" by blast
    note v1 = score_value[OF p1(2,3)]
    from pow_cases[OF assms(1), of "- y"] show ?thesis
    proof
      assume o: "math_pow10 c_pow (Fin (- y)) = Inl OverflowError \<and> max_float \<le> 10 powr (- y)"
      then show ?thesis
        by (simp add: calculate_elo_change_eq s1 s2 p1(1) v1(1) conjunct1[OF o]
            del: fdiv.simps fadd.simps math_pow10.simps)
    next
      assume "\<exists>p. math_pow10 c_pow (Fin (- y)) = Inr (Fin p) \<and> 0 \<le> p \<and> p \<le> max_float \<and>
              \<bar>p - 10 powr (- y)\<bar> \<le> ulp (10 powr (- y))"
      then obtain p2 where p2: "math_pow10 c_pow (Fin (- y)) = Inr (Fin p2)" "0 \<le> p2"
        "p2 \<le> max_float" "\<bar>p2 - 10 powr (- y)\<bar> \<le> ulp (10 powr (- y))" by blast
      note v2 = score_value[OF p2(2,3)]
      have e1: "0 \<le> rnd (1 / rnd (1 + p1))" using v1(2) pow2_pos[of "- 1024"] by linarith
      have e2: "0 \<le> rnd (1 / rnd (1 + p2))" using v2(2) pow2_pos[of "- 1024"] by linarith
      note c = changes_of_scores[OF e1 v1(3) e2 v2(3)]
      have "calculate_elo_change c_pow a b (PyInt 32) =
              Inr (Fin (32 * rnd (1 - rnd (1 / rnd (1 + p1)))),
                   Fin (- (32 * rnd (1 / rnd (1 + p2)))))"
        by (simp add: calculate_elo_change_eq s1 s2 p1(1) p2(1) v1(1) v2(1) fin_32
            finite_or_raise_def c(1,2) rnd_idem
            del: fdiv.simps fadd.simps fmul.simps math_pow10.simps)
      then show ?thesis using p1 p2 by blast
    qed
  qed
qed

text \<open>Whatever the two ratings are, the only exception is \<^verbatim>\<open>OverflowError\<close>.\<close>

lemma raise_error: "finite_or_raise v = Inl e \<Longrightarrow> e = OverflowError"
  by (cases v) (simp_all add: finite_or_raise_def)

lemma to_float_error: "to_float a = Inl e \<Longrightarrow> e = OverflowError"
  by (cases a) (auto dest: raise_error)

lemma nsub_error: "nsub a b = Inl e \<Longrightarrow> e = OverflowError"
  by (cases a; cases b) (auto simp: float_op_def and_then_Inl_iff dest: raise_error)

lemma nadd_error: "nadd a b = Inl e \<Longrightarrow> e = OverflowError"
  by (cases a; cases b) (auto simp: float_op_def and_then_Inl_iff dest: raise_error)

lemma quotient_error: "ndiv d (PyInt 400) = Inl e \<Longrightarrow> e = OverflowError"
  using fin_of_int[of 400]
  by (cases d)
     (auto simp: finite_or_raise_def and_then_Inl_iff split: pyfloat.splits if_splits)

lemma score_of_power:
  assumes "p = PInf \<or> p = NaN \<or> (\<exists>v. p = Fin v \<and> 0 \<le> v \<and> v \<le> max_float)"
  shows "\<exists>s. fdiv (Fin 1) (fadd (Fin 1) p) = Inr s"
  using assms score_value(1) by (cases p) auto

lemma expected_score_error:
  assumes "pow_accurate c_pow" "expected_score c_pow a b = Inl e"
  shows "e = OverflowError"
proof (cases "nsub b a")
  case (Inl e')
  then show ?thesis using assms(2) nsub_error[OF Inl] by (simp add: expected_score_def)
next
  case d: (Inr d)
  show ?thesis
  proof (cases "ndiv d (PyInt 400)")
    case (Inl e')
    then show ?thesis using assms(2) d quotient_error[OF Inl] by (simp add: expected_score_def)
  next
    case x: (Inr x)
    have "math_pow10 c_pow x = Inl OverflowError \<or>
        (\<exists>p. math_pow10 c_pow x = Inr p \<and>
             (p = PInf \<or> p = NaN \<or> (\<exists>v. p = Fin v \<and> 0 \<le> v \<and> v \<le> max_float)))"
    proof (cases x)
      case (Fin y)
      then show ?thesis using pow_cases[OF assms(1), of y] by auto
    qed (use less_imp_le[OF max_float_pos] in auto)
    then show ?thesis
    proof
      assume "math_pow10 c_pow x = Inl OverflowError"
      then show ?thesis using assms(2) d x by (simp add: expected_score_def)
    next
      assume "\<exists>p. math_pow10 c_pow x = Inr p \<and>
             (p = PInf \<or> p = NaN \<or> (\<exists>v. p = Fin v \<and> 0 \<le> v \<and> v \<le> max_float))"
      then obtain p where p: "math_pow10 c_pow x = Inr p"
        "p = PInf \<or> p = NaN \<or> (\<exists>v. p = Fin v \<and> 0 \<le> v \<and> v \<le> max_float)" by blast
      from score_of_power[OF p(2)] show ?thesis
        using assms(2) d x p(1) by (auto simp: expected_score_def)
    qed
  qed
qed

lemma calculate_elo_change_error:
  assumes "pow_accurate c_pow" "calculate_elo_change c_pow a b (PyInt 32) = Inl e"
  shows "e = OverflowError"
  using assms(2) expected_score_error[OF assms(1)]
  by (auto simp: calculate_elo_change_eq and_then_Inl_iff fin_32 finite_or_raise_def)

section \<open>The Elo change: signs and tolerance\<close>

lemma two_u: "(2::real) powi (- 52) = 2 * unit_roundoff"
  by (simp add: unit_roundoff_def power_int_minus)

lemma ulp_half:
  assumes "2 powi k \<le> x" "- 1022 \<le> k"
  shows "ulp x \<le> x * (2 * unit_roundoff)" and "ulp x \<le> x / 2"
proof -
  have "(2::real) powi (- 1022) \<le> 2 powi k" using assms(2) by (simp only: pow2_le_iff)
  then have n: "2 powi (- 1022) \<le> x" using assms(1) by linarith
  then have pos: "0 < x" using pow2_pos[of "- 1022"] by linarith
  show u: "ulp x \<le> x * (2 * unit_roundoff)" using ulp_normal[OF n] by (simp only: two_u)
  have "x * (2 * unit_roundoff) \<le> x * (1 / 2)"
    using pos unit_roundoff_bounds(2) by (intro mult_left_mono) simp_all
  then show "ulp x \<le> x / 2" using u by simp
qed

lemma poly_up:
  fixes u :: real
  assumes "0 \<le> u" "u \<le> 1 / 16"
  shows "1 + u \<le> (1 + 5 * u) * ((1 - 2 * u) * (1 - u))"
proof -
  have a: "0 \<le> u * (1 - 13 * u)" by (intro mult_nonneg_nonneg) (use assms in linarith)+
  have b: "0 \<le> u * u * u" by (intro mult_nonneg_nonneg) (use assms in linarith)+
  have "(1 + 5 * u) * ((1 - 2 * u) * (1 - u)) - (1 + u) = u * (1 - 13 * u) + 10 * (u * u * u)"
    by (simp add: algebra_simps)
  then show ?thesis using a b by linarith
qed

lemma poly_down:
  fixes u :: real
  assumes "0 \<le> u"
  shows "(1 - 5 * u) * ((1 + 2 * u) * (1 + u)) \<le> 1 - u"
proof -
  have a: "0 \<le> u * u" by (intro mult_nonneg_nonneg) (use assms in linarith)+
  have b: "0 \<le> u * u * u" by (intro mult_nonneg_nonneg) (use assms in linarith)+
  have "(1 - u) - (1 - 5 * u) * ((1 + 2 * u) * (1 + u)) = u + 13 * (u * u) + 10 * (u * u * u)"
    by (simp add: algebra_simps)
  then show ?thesis using a b assms by linarith
qed

text \<open>
  The expected score computed from a power \<open>p\<close> that is within one unit in the last place
  of \<open>t\<close>, against the exact score \<open>1 / (1 + t)\<close>.
\<close>

lemma score_near:
  fixes t p :: real
  assumes "2 powi (- 70) \<le> t" "t \<le> 2 powi 70" "\<bar>p - t\<bar> \<le> ulp t"
  defines "e \<equiv> rnd (1 / rnd (1 + p))"
  shows "\<bar>e * (1 + t) - 1\<bar> \<le> 5 * unit_roundoff"
proof -
  define u where "u = unit_roundoff"
  have u: "0 < u" "u \<le> 1 / 16" using unit_roundoff_bounds by (simp_all add: u_def)
  have tpos: "0 < t" using assms(1) pow2_pos[of "- 70"] by linarith
  have "ulp t \<le> t * (2 * u)" unfolding u_def using assms(1) by (rule ulp_half) simp
  then have pl: "t * (1 - 2 * u) \<le> p" and pu: "p \<le> t * (1 + 2 * u)"
    using assms(3) by (simp_all add: algebra_simps abs_le_iff)
  have "0 < t * (1 - 2 * u)" using tpos u by (intro mult_pos_pos) simp_all
  then have ppos: "0 < p" using pl by linarith
  define s where "s = rnd (1 + p)"
  have "(2::real) powi 0 \<le> 1 + p" using ppos by simp
  from rnd_factor[OF this] have sl0: "(1 + p) * (1 - u) \<le> s" and su0: "s \<le> (1 + p) * (1 + u)"
    unfolding s_def u_def by simp_all
  have "rnd 1 \<le> s" unfolding s_def using ppos by (intro rnd_mono) simp
  then have s1: "1 \<le> s" by (simp only: rnd_1)
  then have spos: "0 < s" by simp
  have "t * (1 + 2 * u) \<le> t * 2" using tpos u by (intro mult_left_mono) simp_all
  then have "p \<le> 2 powi 70 * 2" using pu assms(2) by linarith
  also have "(2::real) powi 70 * 2 = 2 powi (70 + 1)" by (simp only: pow2_add) simp
  finally have "p \<le> 2 powi 71" by simp
  moreover have "(1::real) \<le> 2 powi 71" by (rule one_le_power_int) simp_all
  ultimately have "1 + p \<le> 2 powi 71 + 2 powi 71" by linarith
  also have "(2::real) powi 71 + 2 powi 71 = 2 powi (71 + 1)" by (simp only: pow2_add) simp
  finally have "1 + p \<le> 2 powi 72" by simp
  then have "s \<le> rnd (2 powi 72)" unfolding s_def by (rule rnd_mono)
  moreover have "rnd (2 powi 72) = 2 powi 72" by (rule rnd_pow2) simp
  ultimately have s_hi: "s \<le> 2 powi 72" by (simp only:)
  have e_def': "e = rnd (1 / s)" by (simp add: e_def s_def)
  \<comment> \<open>the sum against the exact one\<close>
  have "(1 + t) * (1 - 2 * u) \<le> 1 + p"
  proof -
    have "(1 + t) * (1 - 2 * u) = 1 + t * (1 - 2 * u) - 2 * u" by (simp add: algebra_simps)
    then show ?thesis using pl u by linarith
  qed
  then have "(1 + t) * (1 - 2 * u) * (1 - u) \<le> (1 + p) * (1 - u)"
    using u by (intro mult_right_mono) simp_all
  then have sl: "(1 + t) * ((1 - 2 * u) * (1 - u)) \<le> s" using sl0 by (simp add: mult.assoc)
  have "1 + p \<le> (1 + t) * (1 + 2 * u)"
  proof -
    have "(1 + t) * (1 + 2 * u) = 1 + t * (1 + 2 * u) + 2 * u" by (simp add: algebra_simps)
    then show ?thesis using pu u by linarith
  qed
  then have "(1 + p) * (1 + u) \<le> (1 + t) * (1 + 2 * u) * (1 + u)"
    using u by (intro mult_right_mono) simp_all
  then have su: "s \<le> (1 + t) * ((1 + 2 * u) * (1 + u))" using su0 by (simp add: mult.assoc)
  \<comment> \<open>the reciprocal\<close>
  have "1 / 2 powi 72 \<le> 1 / s" using s_hi spos by (intro divide_left_mono) simp_all
  then have r_lo: "2 powi (- 72) \<le> 1 / s" by (simp only: power_int_minus inverse_eq_divide)
  from rnd_factor[OF this] have el: "1 / s * (1 - u) \<le> e" and eu: "e \<le> 1 / s * (1 + u)"
    unfolding e_def' u_def by simp_all
  have "0 < 1 / s * (1 - u)" using spos u by (intro mult_pos_pos) simp_all
  then have epos: "0 < e" using el by linarith
  \<comment> \<open>the relative error\<close>
  have es_hi: "e * s \<le> 1 + u" using eu spos by (simp add: field_simps)
  have es_lo: "1 - u \<le> e * s" using el spos by (simp add: field_simps)
  have c1: "0 < (1 - 2 * u) * (1 - u)" using u by (intro mult_pos_pos) simp_all
  have c2: "0 < (1 + 2 * u) * (1 + u)" using u by (intro mult_pos_pos) simp_all
  have "e * (1 + t) * ((1 - 2 * u) * (1 - u)) = e * ((1 + t) * ((1 - 2 * u) * (1 - u)))" by simp
  also have "\<dots> \<le> e * s" using sl epos by (intro mult_left_mono) simp_all
  also have "\<dots> \<le> 1 + u" by (rule es_hi)
  also have "\<dots> \<le> (1 + 5 * u) * ((1 - 2 * u) * (1 - u))" using u by (intro poly_up) simp_all
  finally have hi: "e * (1 + t) \<le> 1 + 5 * u" using c1 by (simp only: mult_le_cancel_right_pos)
  have "(1 - 5 * u) * ((1 + 2 * u) * (1 + u)) \<le> 1 - u" using u by (intro poly_down) simp
  also have "\<dots> \<le> e * s" by (rule es_lo)
  also have "\<dots> \<le> e * ((1 + t) * ((1 + 2 * u) * (1 + u)))"
    using su epos by (intro mult_left_mono) simp_all
  also have "\<dots> = e * (1 + t) * ((1 + 2 * u) * (1 + u))" by simp
  finally have lo: "1 - 5 * u \<le> e * (1 + t)" using c2 by (simp only: mult_le_cancel_right_pos)
  show "\<bar>e * (1 + t) - 1\<bar> \<le> 5 * unit_roundoff" using hi lo by (simp add: u_def abs_le_iff)
qed

lemma scores_sum_close:
  fixes t e1 e2 c :: real
  assumes "0 < t"
    and "\<bar>e1 * (1 + t) - 1\<bar> \<le> c"
    and "\<bar>e2 * (1 + 1 / t) - 1\<bar> \<le> c"
  shows "\<bar>1 - e1 - e2\<bar> \<le> c"
proof -
  have "\<bar>e2 * (1 + 1 / t) - 1\<bar> * t \<le> c * t"
    using assms(1,3) by (intro mult_right_mono) simp_all
  moreover have "\<bar>e2 * (1 + 1 / t) - 1\<bar> * t = \<bar>e2 * (1 + t) - t\<bar>"
  proof -
    have "\<bar>e2 * (1 + 1 / t) - 1\<bar> * t = \<bar>(e2 * (1 + 1 / t) - 1) * t\<bar>"
      using assms(1) by (simp add: abs_mult)
    also have "(e2 * (1 + 1 / t) - 1) * t = e2 * (1 + t) - t"
      using assms(1) by (simp add: field_simps)
    finally show ?thesis .
  qed
  ultimately have h2: "\<bar>e2 * (1 + t) - t\<bar> \<le> c * t" by simp
  have "(1 - e1 - e2) * (1 + t) = - (e1 * (1 + t) - 1) - (e2 * (1 + t) - t)"
    by (simp add: algebra_simps)
  then have "\<bar>(1 - e1 - e2) * (1 + t)\<bar> \<le> c + c * t" using assms(2) h2 by linarith
  also have "\<dots> = c * (1 + t)" by (simp add: algebra_simps)
  finally have "\<bar>1 - e1 - e2\<bar> * (1 + t) \<le> c * (1 + t)"
    using assms(1) by (simp add: abs_mult)
  then show ?thesis using assms(1) by simp
qed

lemma reciprocal_range:
  fixes t :: real
  assumes "2 powi (- k) \<le> t" "t \<le> 2 powi k"
  shows "2 powi (- k) \<le> 1 / t" "1 / t \<le> 2 powi k"
proof -
  have tpos: "0 < t" using assms(1) pow2_pos[of "- k"] by linarith
  have "inverse t \<le> inverse (2 powi (- k))"
    using assms(1) pow2_pos[of "- k"] by (intro le_imp_inverse_le)
  then show "1 / t \<le> 2 powi k" by (simp add: power_int_minus inverse_eq_divide)
  have "inverse (2 powi k) \<le> inverse t" using assms(2) tpos by (intro le_imp_inverse_le)
  then show "2 powi (- k) \<le> 1 / t" by (simp add: power_int_minus inverse_eq_divide)
qed

lemma tolerance_mid:
  fixes t p1 p2 :: real
  assumes "2 powi (- 70) \<le> t" "t \<le> 2 powi 70"
    and "0 \<le> p1" "p1 \<le> max_float" "\<bar>p1 - t\<bar> \<le> ulp t"
    and "0 \<le> p2" "p2 \<le> max_float" "\<bar>p2 - 1 / t\<bar> \<le> ulp (1 / t)"
  shows "\<bar>32 * rnd (1 - rnd (1 / rnd (1 + p1))) - 32 * rnd (1 / rnd (1 + p2))\<bar> \<le> 2 powi (- 45)"
proof -
  define u where "u = unit_roundoff"
  define e1 where "e1 = rnd (1 / rnd (1 + p1))"
  define e2 where "e2 = rnd (1 / rnd (1 + p2))"
  have tpos: "0 < t" using assms(1) pow2_pos[of "- 70"] by linarith
  note t2 = reciprocal_range[OF assms(1,2)]
  have n1: "\<bar>e1 * (1 + t) - 1\<bar> \<le> 5 * u"
    unfolding e1_def u_def using assms(1,2,5) by (rule score_near)
  have n2: "\<bar>e2 * (1 + 1 / t) - 1\<bar> \<le> 5 * u"
    unfolding e2_def u_def using t2 assms(8) by (rule score_near)
  have sum: "\<bar>1 - e1 - e2\<bar> \<le> 5 * u" using tpos n1 n2 by (rule scores_sum_close)
  note v1 = score_value[OF assms(3,4), folded e1_def]
  have "0 \<le> e1" using v1(2) pow2_pos[of "- 1024"] by linarith
  then have "\<bar>1 - e1\<bar> \<le> 1" using v1(3) by simp
  then have w: "\<bar>rnd (1 - e1) - (1 - e1)\<bar> \<le> u" unfolding u_def by (rule rnd_err_unit)
  have "\<bar>rnd (1 - e1) - e2\<bar> \<le> 6 * u" using w sum by linarith
  then have "\<bar>32 * rnd (1 - e1) - 32 * e2\<bar> \<le> 192 * u" by linarith
  also have "\<dots> \<le> 2 powi (- 45)" by (simp add: u_def unit_roundoff_def power_int_minus)
  finally show ?thesis by (simp only: e1_def e2_def)
qed

lemma tiny_power:
  assumes "0 < t" "t \<le> 2 powi (- 60)" "0 \<le> p" "\<bar>p - t\<bar> \<le> ulp t"
  shows "rnd (1 / rnd (1 + p)) = 1"
proof -
  have "ulp t \<le> 2 powi (max (- 60 - 52) (- 1074))" using assms(1,2) by (rule ulp_le)
  also have "\<dots> = 2 powi (- 112)" by simp
  also have "\<dots> \<le> 2 powi (- 60)" by (simp only: pow2_le_iff)
  finally have "p \<le> 2 powi (- 60) + 2 powi (- 60)" using assms(2,4) by linarith
  also have "(2::real) powi (- 60) + 2 powi (- 60) = 2 powi (- 60 + 1)"
    by (simp only: pow2_add) simp
  also have "\<dots> < 2 powi (- 53)" by (simp only: pow2_less_iff)
  finally have "rnd (1 + p) = 1" using assms(3) by (intro rnd_one_plus_small)
  then show ?thesis by (simp add: rnd_1)
qed

lemma huge_power:
  assumes "2 powi 60 \<le> t" "\<bar>p - t\<bar> \<le> ulp t"
  shows "0 \<le> rnd (1 / rnd (1 + p))" and "rnd (1 / rnd (1 + p)) \<le> 2 powi (- 59)"
proof -
  have "ulp t \<le> t / 2" using assms(1) by (rule ulp_half) simp
  then have "t / 2 \<le> p" using assms(2) by linarith
  moreover have "(2::real) powi 60 = 2 powi 59 * 2 powi 1"
  proof -
    have "(60::int) = 59 + 1" by simp
    then show ?thesis by (simp only: pow2_add)
  qed
  ultimately have p59: "2 powi 59 \<le> p" using assms(1) by simp
  have "rnd (2 powi 59) \<le> rnd (1 + p)" using p59 by (intro rnd_mono) simp
  moreover have "rnd (2 powi 59) = 2 powi 59" by (rule rnd_pow2) simp
  ultimately have s: "2 powi 59 \<le> rnd (1 + p)" by (simp only:)
  then have spos: "0 < rnd (1 + p)" using pow2_pos[of 59] by linarith
  then have "0 \<le> 1 / rnd (1 + p)" by simp
  then show "0 \<le> rnd (1 / rnd (1 + p))" by (rule rnd_nonneg)
  have "1 / rnd (1 + p) \<le> 1 / 2 powi 59"
    using s pow2_pos[of 59] by (intro divide_left_mono) simp_all
  then have "1 / rnd (1 + p) \<le> 2 powi (- 59)" by (simp only: power_int_minus inverse_eq_divide)
  then have "rnd (1 / rnd (1 + p)) \<le> rnd (2 powi (- 59))" by (rule rnd_mono)
  moreover have "rnd (2 powi (- 59)) = 2 powi (- 59)" by (rule rnd_pow2) simp
  ultimately show "rnd (1 / rnd (1 + p)) \<le> 2 powi (- 59)" by (simp only:)
qed

lemma tolerance_high:
  fixes t p1 p2 :: real
  assumes "0 < t" "t \<le> 2 powi (- 60)"
    and "0 \<le> p1" "\<bar>p1 - t\<bar> \<le> ulp t" "\<bar>p2 - 1 / t\<bar> \<le> ulp (1 / t)"
  shows "32 * rnd (1 - rnd (1 / rnd (1 + p1))) = 0"
    and "0 \<le> 32 * rnd (1 / rnd (1 + p2))" and "32 * rnd (1 / rnd (1 + p2)) \<le> 2 powi (- 54)"
proof -
  have "rnd (1 / rnd (1 + p1)) = 1" using assms(1-4) by (rule tiny_power)
  then show "32 * rnd (1 - rnd (1 / rnd (1 + p1))) = 0" by (simp add: rnd_0)
  have "inverse (2 powi (- 60)) \<le> inverse t" using assms(1,2) by (intro le_imp_inverse_le)
  then have "2 powi 60 \<le> 1 / t" by (simp add: power_int_minus inverse_eq_divide)
  note h = huge_power[OF this assms(5)]
  show "0 \<le> 32 * rnd (1 / rnd (1 + p2))" using h(1) by simp
  have "32 * rnd (1 / rnd (1 + p2)) \<le> 2 powi 5 * 2 powi (- 59)" using h(2) by simp
  also have "(2::real) powi 5 * 2 powi (- 59) = 2 powi (5 + - 59)" by (simp only: pow2_add)
  finally show "32 * rnd (1 / rnd (1 + p2)) \<le> 2 powi (- 54)" by simp
qed

lemma tolerance_low:
  fixes t p1 p2 :: real
  assumes "2 powi 60 \<le> t"
    and "\<bar>p1 - t\<bar> \<le> ulp t" "0 \<le> p2" "\<bar>p2 - 1 / t\<bar> \<le> ulp (1 / t)"
  shows "32 * rnd (1 - rnd (1 / rnd (1 + p1))) = 32" and "32 * rnd (1 / rnd (1 + p2)) = 32"
proof -
  have tpos: "0 < t" using assms(1) pow2_pos[of 60] by linarith
  note h = huge_power[OF assms(1,2)]
  have "(2::real) powi (- 59) \<le> 2 powi (- 55)" by (simp only: pow2_le_iff)
  then have "rnd (1 / rnd (1 + p1)) \<le> 2 powi (- 55)" using h(2) by linarith
  with h(1) have "rnd (1 - rnd (1 / rnd (1 + p1))) = 1" by (rule rnd_one_minus_tiny)
  then show "32 * rnd (1 - rnd (1 / rnd (1 + p1))) = 32" by simp
  have "inverse t \<le> inverse (2 powi 60)"
    using assms(1) pow2_pos[of 60] by (intro le_imp_inverse_le)
  then have "1 / t \<le> 2 powi (- 60)" by (simp add: power_int_minus inverse_eq_divide)
  moreover have "0 < 1 / t" using tpos by simp
  ultimately have "rnd (1 / rnd (1 + p2)) = 1" using assms(3,4) by (intro tiny_power)
  then show "32 * rnd (1 / rnd (1 + p2)) = 32" by (simp add: rnd_1)
qed

lemma ten_pow_20: "(10::real) powr 20 \<le> 2 powi 70" "2 powi 60 \<le> (10::real) powr 20"
proof -
  have e3: "(21::nat) = 3 * 7" and e10: "(70::nat) = 10 * 7" and e60: "(60::nat) = 3 * 20"
    by simp_all
  have "(10::real) powr 20 = 10 ^ 20" by (simp only: powr_numeral zero_le_numeral)
  also have "\<dots> \<le> 10 ^ 21" by (intro power_increasing) simp_all
  also have "\<dots> \<le> 2 ^ 70" unfolding e3 e10 by (rule ten_le_two_pow)
  also have "\<dots> = 2 powi 70" by (simp only: power_int_numeral)
  finally show "(10::real) powr 20 \<le> 2 powi 70" .
  have "(2::real) powi 60 = 2 ^ 60" by (simp only: power_int_numeral)
  also have "\<dots> \<le> 10 ^ 20" unfolding e60 by (rule two_le_ten_pow)
  also have "\<dots> = 10 powr 20" by (simp only: powr_numeral zero_le_numeral)
  finally show "2 powi 60 \<le> (10::real) powr 20" .
qed

lemma ten_powr_minus: "(10::real) powr (- y) = 1 / 10 powr y"
  by (simp add: powr_minus inverse_eq_divide)

text \<open>
  The sum of the two changes, whatever the exponent is: between \<open>- 20\<close> and 20 the errors of
  the two scores nearly cancel, and beyond that one change is 0 or 32 and the other one
  negligible or - 32.
\<close>

lemma tolerance_all:
  fixes y p1 p2 :: real
  assumes "0 \<le> p1" "p1 \<le> max_float" "\<bar>p1 - 10 powr y\<bar> \<le> ulp (10 powr y)"
    and "0 \<le> p2" "p2 \<le> max_float" "\<bar>p2 - 10 powr (- y)\<bar> \<le> ulp (10 powr (- y))"
  shows "\<bar>32 * rnd (1 - rnd (1 / rnd (1 + p1))) - 32 * rnd (1 / rnd (1 + p2))\<bar> \<le> 2 powi (- 45)"
proof -
  define t :: real where "t = 10 powr y"
  have tpos: "0 < t" by (simp add: t_def)
  note a3 = assms(3)[folded t_def]
  note a6 = assms(6)[unfolded ten_powr_minus, folded t_def]
  consider "y \<le> - 20" | "- 20 \<le> y \<and> y \<le> 20" | "20 \<le> y" by linarith
  then show ?thesis
  proof cases
    case 1
    then have "t \<le> 10 powr (- 20)" unfolding t_def by (intro powr_mono) simp_all
    also have "\<dots> = 1 / 10 powr 20" by (rule ten_powr_minus)
    also have "\<dots> \<le> 1 / 2 powi 60"
      using ten_pow_20(2) pow2_pos[of 60] by (intro divide_left_mono) simp_all
    also have "\<dots> = 2 powi (- 60)" by (simp only: power_int_minus inverse_eq_divide)
    finally have "t \<le> 2 powi (- 60)" .
    note h = tolerance_high[OF tpos this assms(1) a3 a6]
    have "(2::real) powi (- 54) \<le> 2 powi (- 45)" by (simp only: pow2_le_iff)
    then show ?thesis unfolding h(1) using h(2,3) by simp
  next
    case 2
    then have "t \<le> 10 powr 20" "10 powr (- 20) \<le> t"
      unfolding t_def by (intro powr_mono; simp)+
    moreover have "1 / 2 powi 70 \<le> 1 / (10::real) powr 20"
      using ten_pow_20(1) by (intro divide_left_mono) simp_all
    then have "2 powi (- 70) \<le> (10::real) powr (- 20)"
      by (simp only: power_int_minus inverse_eq_divide ten_powr_minus)
    ultimately have "2 powi (- 70) \<le> t" "t \<le> 2 powi 70" using ten_pow_20(1) by linarith+
    then show ?thesis using assms(1,2) a3 assms(4,5) a6 by (rule tolerance_mid)
  next
    case 3
    then have "10 powr 20 \<le> t" unfolding t_def by (intro powr_mono) simp_all
    then have "2 powi 60 \<le> t" using ten_pow_20(2) by linarith
    note l = tolerance_low[OF this a3 assms(4) a6]
    show ?thesis unfolding l by simp
  qed
qed

lemma one_plus_pow2_exact:
  assumes "- 52 \<le> k" "k \<le> 0"
  shows "rnd (1 + 2 powi k) = 1 + 2 powi k"
proof -
  have "(2::int) ^ nat (- k) \<le> 2 ^ 52" using assms by (intro power_increasing) simp_all
  then have "\<bar>2 ^ nat (- k) + (1::int)\<bar> < 2 ^ 53" by simp
  then have "rnd (of_int (2 ^ nat (- k) + 1) * 2 powi k) = of_int (2 ^ nat (- k) + 1) * 2 powi k"
    using assms(1) by (intro rnd_exact) simp_all
  moreover have "(2::real) ^ nat (- k) * 2 powi k = 1"
    using assms(2) by (simp add: power_int_def field_simps)
  ultimately show ?thesis by (simp add: distrib_right add.commute)
qed

lemma one_minus_pow2_exact: "rnd (1 - 2 powi (- 52)) = 1 - 2 powi (- 52)"
proof -
  have "rnd (of_int (2 ^ 52 - 1) * 2 powi (- 52)) = of_int (2 ^ 52 - 1) * 2 powi (- 52)"
    by (rule rnd_exact) simp_all
  moreover have "of_int (2 ^ 52 - 1) * (2::real) powi (- 52) = 1 - 2 powi (- 52)"
    by (simp add: left_diff_distrib power_int_minus)
  ultimately show ?thesis by (simp only:)
qed

lemma winner_change_positive:
  assumes "2 powi (- 50) \<le> t" "\<bar>p - t\<bar> \<le> ulp t"
  shows "2 powi (- 47) \<le> 32 * rnd (1 - rnd (1 / rnd (1 + p)))"
proof -
  have "ulp t \<le> t / 2" using assms(1) by (rule ulp_half) simp
  then have "t / 2 \<le> p" using assms(2) by linarith
  moreover have "(2::real) powi (- 50) = 2 powi (- 51) * 2 powi 1"
  proof -
    have "(- 50::int) = - 51 + 1" by simp
    then show ?thesis by (simp only: pow2_add)
  qed
  ultimately have p: "2 powi (- 51) \<le> p" using assms(1) by simp
  have "rnd (1 + 2 powi (- 51)) \<le> rnd (1 + p)" using p by (intro rnd_mono) simp
  moreover have "rnd (1 + 2 powi (- 51)) = 1 + 2 powi (- 51)"
    by (rule one_plus_pow2_exact) simp_all
  ultimately have s: "1 + 2 powi (- 51) \<le> rnd (1 + p)" by (simp only:)
  have "1 / rnd (1 + p) \<le> 1 / (1 + 2 powi (- 51))"
    using s pow2_pos[of "- 51"] by (intro divide_left_mono) simp_all
  also have "\<dots> \<le> 1 - 2 powi (- 52)"
  proof -
    have "(1 + (2::real) powi (- 51)) * (1 - 2 powi (- 52)) \<ge> 1"
      by (simp add: power_int_minus field_simps)
    then show ?thesis using pow2_pos[of "- 51"] by (simp add: pos_divide_le_eq mult.commute)
  qed
  finally have "rnd (1 / rnd (1 + p)) \<le> rnd (1 - 2 powi (- 52))" by (rule rnd_mono)
  then have "rnd (1 / rnd (1 + p)) \<le> 1 - 2 powi (- 52)" by (simp only: one_minus_pow2_exact)
  then have "2 powi (- 52) \<le> 1 - rnd (1 / rnd (1 + p))" by simp
  then have "rnd (2 powi (- 52)) \<le> rnd (1 - rnd (1 / rnd (1 + p)))" by (rule rnd_mono)
  moreover have "rnd (2 powi (- 52)) = 2 powi (- 52)" by (rule rnd_pow2) simp
  ultimately have "2 powi (- 52) \<le> rnd (1 - rnd (1 / rnd (1 + p)))" by (simp only:)
  then have "2 powi 5 * 2 powi (- 52) \<le> 32 * rnd (1 - rnd (1 / rnd (1 + p)))" by simp
  moreover have "(2::real) powi 5 * 2 powi (- 52) = 2 powi (5 + - 52)" by (simp only: pow2_add)
  ultimately show ?thesis by simp
qed

lemma winner_change_zero:
  assumes "0 < t" "t \<le> 15 * 2 powi (- 57)" "0 \<le> p" "\<bar>p - t\<bar> \<le> ulp t"
  shows "32 * rnd (1 - rnd (1 / rnd (1 + p))) = 0"
proof -
  have e: "(2::real) powi (- 53) = 16 * 2 powi (- 57)"
  proof -
    have "(- 53::int) = 4 + - 57" by simp
    then have "(2::real) powi (- 53) = 2 powi 4 * 2 powi (- 57)" by (simp only: pow2_add)
    then show ?thesis by simp
  qed
  have p57: "0 < (2::real) powi (- 57)" by (rule pow2_pos)
  have "t \<le> 2 powi (- 53)" using assms(2) p57 unfolding e by linarith
  with assms(1) have "ulp t \<le> 2 powi (max (- 53 - 52) (- 1074))" by (rule ulp_le)
  also have "\<dots> = 2 powi (- 105)" by simp
  also have "\<dots> < 2 powi (- 57)" by (simp only: pow2_less_iff)
  finally have "p < 15 * 2 powi (- 57) + 2 powi (- 57)" using assms(2,4) by linarith
  then have "p < 2 powi (- 53)" unfolding e by simp
  with assms(3) have "rnd (1 + p) = 1" by (rule rnd_one_plus_small)
  then show ?thesis by (simp add: rnd_1 rnd_0)
qed

lemma exponent_ge:
  assumes "of_int n * 400 \<le> g" "\<bar>n * 400\<bar> < 2 ^ 53"
  shows "of_int n \<le> rnd (rnd g / 400)"
proof -
  have "\<bar>n\<bar> < 2 ^ 53" using assms(2) by simp
  then have n: "rnd (of_int n) = of_int n" by (rule rnd_of_int)
  have "rnd (of_int (n * 400)) \<le> rnd g" using assms(1) by (intro rnd_mono) simp
  then have "of_int (n * 400) \<le> rnd g" using rnd_of_int[OF assms(2)] by simp
  then have "of_int n \<le> rnd g / 400" by simp
  then have "rnd (of_int n) \<le> rnd (rnd g / 400)" by (rule rnd_mono)
  then show ?thesis by (simp only: n)
qed

lemma exponent_le:
  assumes "g \<le> of_int n * 400" "\<bar>n * 400\<bar> < 2 ^ 53"
  shows "rnd (rnd g / 400) \<le> of_int n"
proof -
  have "\<bar>n\<bar> < 2 ^ 53" using assms(2) by simp
  then have n: "rnd (of_int n) = of_int n" by (rule rnd_of_int)
  have "rnd g \<le> rnd (of_int (n * 400))" using assms(1) by (intro rnd_mono) simp
  then have "rnd g \<le> of_int (n * 400)" using rnd_of_int[OF assms(2)] by simp
  then have "rnd g / 400 \<le> of_int n" by simp
  then have "rnd (rnd g / 400) \<le> rnd (of_int n)" by (rule rnd_mono)
  then show ?thesis by (simp only: n)
qed

lemma ten_pow_15: "2 powi (- 50) \<le> (10::real) powr (- 15)"
proof -
  have e3: "(15::nat) = 3 * 5" and e10: "(50::nat) = 10 * 5" by simp_all
  have "(10::real) powr 15 = 10 ^ 15" by (simp only: powr_numeral zero_le_numeral)
  also have "\<dots> \<le> 2 ^ 50" unfolding e3 e10 by (rule ten_le_two_pow)
  also have "\<dots> = 2 powi 50" by (simp only: power_int_numeral)
  finally have "1 / 2 powi 50 \<le> 1 / (10::real) powr 15"
    by (intro divide_left_mono) simp_all
  then show ?thesis by (simp only: power_int_minus inverse_eq_divide ten_powr_minus)
qed

lemma ten_pow_16: "(10::real) powr (- 16) \<le> 15 * 2 powi (- 57)"
proof -
  have "(2::real) ^ 57 \<le> 15 * 10 ^ 16" by simp
  then have "(2::real) powi 57 \<le> 15 * 10 powr 16"
    by (simp only: power_int_numeral powr_numeral zero_le_numeral)
  then have "1 \<le> 15 * 10 powr 16 * (2::real) powi (- 57)"
    using pow2_pos[of 57] by (simp add: power_int_minus field_simps)
  then have "1 / 10 powr 16 \<le> 15 * (2::real) powi (- 57)"
    by (simp add: field_simps)
  then show ?thesis by (simp only: ten_powr_minus)
qed

lemma ten_pow_307: "(10::real) powr 307 < max_float"
proof -
  have "(10::real) ^ 307 < 2 ^ 1023" by simp
  then have "(10::real) powr 307 < 2 powi 1023"
    by (simp only: power_int_numeral powr_numeral zero_le_numeral)
  then show ?thesis using max_float_ge by linarith
qed

lemma ten_pow_309: "2 powi 1025 \<le> (10::real) powr 309"
proof -
  have "(2::real) ^ 1025 \<le> 10 ^ 309" by simp
  then show ?thesis by (simp only: power_int_numeral powr_numeral zero_le_numeral)
qed

section \<open>The outcome of a comparison\<close>

lemma ten_powr_mono: "x \<le> y \<Longrightarrow> (10::real) powr x \<le> 10 powr y"
  by (rule powr_mono) simp_all

text \<open>
  The changes that \<^verbatim>\<open>calculate_elo_change\<close> returns on ordinary ratings, for every C
  library within one unit in the last place.
\<close>

lemma elo_change_ordinary:
  assumes "pow_accurate c_pow" "ordinary a" "ordinary b"
    and "calculate_elo_change c_pow a b (PyInt 32) = Inr (wd, ld)"
  shows "\<exists>x z. wd = Fin x \<and> ld = Fin z \<and> 0 \<le> x \<and> x \<le> 32 \<and> - 32 \<le> z \<and> z < 0 \<and>
           \<bar>x + z\<bar> \<le> 2 powi (- 45) \<and>
           (val a - val b \<le> 6000 \<longrightarrow> 0 < x) \<and>
           (6400 \<le> val a - val b \<longrightarrow> x = 0)"
proof -
  define y where "y = rnd (rnd (val b - val a) / 400)"
  from elo_change_cases[OF assms(1-3), folded y_def] assms(4)
  obtain p1 p2 where p1: "0 \<le> p1" "p1 \<le> max_float" "\<bar>p1 - 10 powr y\<bar> \<le> ulp (10 powr y)"
    and p2: "0 \<le> p2" "p2 \<le> max_float" "\<bar>p2 - 10 powr (- y)\<bar> \<le> ulp (10 powr (- y))"
    and wd: "wd = Fin (32 * rnd (1 - rnd (1 / rnd (1 + p1))))"
    and ld: "ld = Fin (- (32 * rnd (1 / rnd (1 + p2))))"
    by auto
  define x where "x = 32 * rnd (1 - rnd (1 / rnd (1 + p1)))"
  define z where "z = - (32 * rnd (1 / rnd (1 + p2)))"
  note v1 = score_value[OF p1(1,2)]
  note v2 = score_value[OF p2(1,2)]
  have e1: "0 \<le> rnd (1 / rnd (1 + p1))" using v1(2) pow2_pos[of "- 1024"] by linarith
  have e2: "0 < rnd (1 / rnd (1 + p2))" using v2(2) pow2_pos[of "- 1024"] by linarith
  note c = changes_of_scores[OF e1 v1(3) less_imp_le[OF e2] v2(3)]
  have x: "0 \<le> x" "x \<le> 32" using c(3,4) by (simp_all add: x_def)
  have z: "- 32 \<le> z" "z < 0" using e2 v2(3) by (simp_all add: z_def)
  have t: "\<bar>x + z\<bar> \<le> 2 powi (- 45)" using tolerance_all[OF p1 p2] by (simp add: x_def z_def)
  have pos: "0 < x" if "val a - val b \<le> 6000"
  proof -
    have "of_int (- 15) * 400 \<le> val b - val a" using that by simp
    then have "of_int (- 15) \<le> y" unfolding y_def by (rule exponent_ge) simp
    then have "(10::real) powr (- 15) \<le> 10 powr y" by (intro ten_powr_mono) simp
    then have "2 powi (- 50) \<le> 10 powr y" using ten_pow_15 by linarith
    from winner_change_positive[OF this p1(3)] pow2_pos[of "- 47"] show ?thesis
      unfolding x_def by linarith
  qed
  have zero: "x = 0" if "6400 \<le> val a - val b"
  proof -
    have "val b - val a \<le> of_int (- 16) * 400" using that by simp
    then have "y \<le> of_int (- 16)" unfolding y_def by (rule exponent_le) simp
    then have "(10::real) powr y \<le> 10 powr (- 16)" by (intro ten_powr_mono) simp
    then have le: "10 powr y \<le> 15 * 2 powi (- 57)" using ten_pow_16 by linarith
    have "0 < (10::real) powr y" by simp
    then show ?thesis unfolding x_def using le p1(1,3) by (rule winner_change_zero)
  qed
  have "wd = Fin x" "ld = Fin z" by (simp_all add: wd ld x_def z_def)
  then show ?thesis using x z t pos zero by blast
qed

lemma elo_change_returns:
  assumes "pow_accurate c_pow" "ordinary a" "ordinary b" "\<bar>val a - val b\<bar> \<le> 122800"
  shows "\<exists>wd ld. calculate_elo_change c_pow a b (PyInt 32) = Inr (wd, ld)"
proof -
  define y where "y = rnd (rnd (val b - val a) / 400)"
  have "of_int (- 307) * 400 \<le> val b - val a" using assms(4) by simp
  then have lo: "of_int (- 307) \<le> y" unfolding y_def by (rule exponent_ge) simp
  have "val b - val a \<le> of_int 307 * 400" using assms(4) by simp
  then have hi: "y \<le> of_int 307" unfolding y_def by (rule exponent_le) simp
  have "(10::real) powr y \<le> 10 powr 307" using hi by (intro ten_powr_mono) simp
  then have 1: "\<not> max_float \<le> 10 powr y" using ten_pow_307 by linarith
  have "(10::real) powr (- y) \<le> 10 powr 307" using lo by (intro ten_powr_mono) simp
  then have 2: "\<not> max_float \<le> 10 powr (- y)" using ten_pow_307 by linarith
  from elo_change_cases[OF assms(1-3), folded y_def] 1 2 show ?thesis by blast
qed

lemma elo_change_overflows:
  assumes "pow_accurate c_pow" "ordinary a" "ordinary b" "123600 \<le> \<bar>val a - val b\<bar>"
  shows "calculate_elo_change c_pow a b (PyInt 32) = Inl OverflowError"
proof -
  define y where "y = rnd (rnd (val b - val a) / 400)"
  have "of_int 309 \<le> y \<or> y \<le> of_int (- 309)"
  proof (cases "val a \<le> val b")
    case True
    then have "of_int 309 * 400 \<le> val b - val a" using assms(4) by simp
    then have "of_int 309 \<le> y" unfolding y_def by (rule exponent_ge) simp
    then show ?thesis ..
  next
    case False
    then have "val b - val a \<le> of_int (- 309) * 400" using assms(4) by simp
    then have "y \<le> of_int (- 309)" unfolding y_def by (rule exponent_le) simp
    then show ?thesis ..
  qed
  then have "2 powi 1025 \<le> 10 powr y \<or> 2 powi 1025 \<le> 10 powr (- y)"
  proof
    assume "of_int 309 \<le> y"
    then have "(10::real) powr 309 \<le> 10 powr y" by (intro ten_powr_mono) simp
    then show ?thesis using ten_pow_309 by linarith
  next
    assume "y \<le> of_int (- 309)"
    then have "(10::real) powr 309 \<le> 10 powr (- y)" by (intro ten_powr_mono) simp
    then show ?thesis using ten_pow_309 by linarith
  qed
  then have "math_pow10 c_pow (Fin y) = Inl OverflowError \<or>
      math_pow10 c_pow (Fin (- y)) = Inl OverflowError"
    using pow_overflows[OF assms(1)] by blast
  moreover have "Inl OverflowError \<noteq> (Inr v :: py_error + pyfloat)" for v by simp
  ultimately show ?thesis
    using elo_change_cases[OF assms(1-3), folded y_def] by metis
qed

text \<open>Adding a change of at most 32 to a rating that is not huge cannot leave the floats.\<close>

lemma add_change:
  assumes "\<bar>v\<bar> \<le> 2 powi k" "5 \<le> k" "k \<le> 1022" "\<bar>c\<bar> \<le> 32"
  shows "fadd (Fin v) (Fin c) = Fin (rnd (v + c))" and "\<bar>rnd (v + c)\<bar> \<le> 2 powi (k + 1)"
proof -
  have "(2::real) powi 5 \<le> 2 powi k" using assms(2) by (simp only: pow2_le_iff)
  then have "\<bar>c\<bar> \<le> 2 powi k" using assms(4) by simp
  then have "\<bar>v + c\<bar> \<le> 2 powi k + 2 powi k" using assms(1) by linarith
  also have "(2::real) powi k + 2 powi k = 2 powi (k + 1)" by (simp add: pow2_add)
  finally have s: "\<bar>v + c\<bar> \<le> 2 powi (k + 1)" .
  have "rnd (2 powi (k + 1)) = 2 powi (k + 1)" using assms(2) by (intro rnd_pow2) simp
  with s show "\<bar>rnd (v + c)\<bar> \<le> 2 powi (k + 1)" by (rule rnd_abs_le)
  have "k + 1 \<le> 1023" using assms(3) by simp
  with s have "\<bar>v + c\<bar> \<le> 2 powi 1023" by (rule le_pow2_1023)
  then show "fadd (Fin v) (Fin c) = Fin (rnd (v + c))" by (simp add: fin_Fin')
qed

lemma nadd_ordinary:
  assumes "ordinary a" "\<bar>c\<bar> \<le> 32"
  shows "nadd a (PyFloat (Fin c)) = Inr (PyFloat (Fin (rnd (val a + c))))"
    and "\<bar>rnd (val a + c)\<bar> \<le> 2 powi 1001"
proof -
  note a = add_change[OF val_bound[OF assms(1)] _ _ assms(2)]
  show "nadd a (PyFloat (Fin c)) = Inr (PyFloat (Fin (rnd (val a + c))))"
    unfolding nadd_float using a(1) by (simp add: to_float_ordinary[OF assms(1)])
  show "\<bar>rnd (val a + c)\<bar> \<le> 2 powi 1001" using a(2) by simp
qed

lemma apply_outcome_error:
  assumes "r winner = Some w" "r loser = Some l"
    and "apply_outcome r winner loser wc lc = Inl e"
  shows "e = OverflowError"
proof (cases "winner = loser")
  case True
  with assms(3) show ?thesis
    unfolding True apply_outcome_same[of r loser l, OF assms(2)]
    by (auto simp: and_then_Inl_iff simp del: nadd.simps dest: nadd_error)
next
  case False
  with assms(3) show ?thesis
    unfolding apply_outcome_distinct[OF assms(1,2) False]
    by (auto simp: and_then_Inl_iff simp del: nadd.simps dest: nadd_error)
qed

lemma update_ratings_error:
  assumes "load_ratings st theme = Inr r" "r winner = Some w" "r loser = Some l"
    and "pow_accurate c_pow" "update_ratings c_pow st theme winner loser = Inl e"
  shows "e = OverflowError"
proof (cases "calculate_elo_change c_pow (rating w) (rating l) (PyInt 32)")
  case (Inl e')
  then have "e = e'" using assms(5) by (simp add: update_ratings_eq[OF assms(1)] assms(2,3))
  then show ?thesis using calculate_elo_change_error[OF assms(4) Inl] by simp
next
  case (Inr c)
  then have "apply_outcome r winner loser (fst c) (snd c) = Inl e"
    using assms(5)
    by (simp add: update_ratings_eq[OF assms(1)] assms(2,3) split: sum.splits)
  then show ?thesis by (rule apply_outcome_error[OF assms(2,3)])
qed

lemma update_ratings_returns:
  assumes "load_ratings st theme = Inr r" "r winner = Some w" "r loser = Some l"
    and "pow_accurate c_pow" "ordinary (rating w)" "ordinary (rating l)"
    and "\<bar>val (rating w) - val (rating l)\<bar> \<le> 122800"
  shows "\<exists>st'. update_ratings c_pow st theme winner loser = Inr st'"
proof -
  from elo_change_returns[OF assms(4-7)] obtain wd ld where
    c: "calculate_elo_change c_pow (rating w) (rating l) (PyInt 32) = Inr (wd, ld)" by blast
  from elo_change_ordinary[OF assms(4-6) c] obtain x z where
    xz: "wd = Fin x" "ld = Fin z" and b: "0 \<le> x" "x \<le> 32" "- 32 \<le> z" "z < 0" by blast
  have ax: "\<bar>x\<bar> \<le> 32" "\<bar>z\<bar> \<le> 32" using b by simp_all
  note nw = nadd_ordinary[OF assms(5) ax(1)]
  note nl = nadd_ordinary[OF assms(6) ax(2)]
  have "\<exists>r'. apply_outcome r winner loser wd ld = Inr r'"
  proof (cases "winner = loser")
    case True
    have "nadd (PyFloat (Fin (rnd (val (rating w) + x)))) (PyFloat (Fin z)) =
        Inr (PyFloat (Fin (rnd (rnd (val (rating w) + x) + z))))"
      unfolding nadd_float using add_change(1)[OF nw(2) _ _ ax(2)] by simp
    then show ?thesis
      unfolding True[symmetric] apply_outcome_same[of r winner w, OF assms(2)] xz
      by (simp add: nw(1) del: nadd.simps)
  next
    case False
    show ?thesis
      unfolding apply_outcome_distinct[OF assms(2,3) False] xz
      by (simp add: nw(1) nl(1) del: nadd.simps)
  qed
  then show ?thesis
    using c by (auto simp: update_ratings_eq[OF assms(1)] assms(2,3))
qed

lemma update_ratings_far_apart:
  assumes "load_ratings st theme = Inr r" "r winner = Some w" "r loser = Some l"
    and "pow_accurate c_pow" "ordinary (rating w)" "ordinary (rating l)"
    and "123600 \<le> \<bar>val (rating w) - val (rating l)\<bar>"
  shows "update_ratings c_pow st theme winner loser = Inl OverflowError"
  using elo_change_overflows[OF assms(4-7)]
  by (simp add: update_ratings_eq[OF assms(1)] assms(2,3))

lemma elo_change_equal_ints:
  "calculate_elo_change c_pow (PyInt n) (PyInt n) (PyInt 32) = Inr (Fin 16, Fin (- 16))"
  unfolding calculate_elo_change_def
  by (simp add: finite_or_raise_def fin_32 fsub_def fin_0 fin_1 fin_2 fin_half fin_16 fin_m16)

lemma huge_int_overflows: "to_float (PyInt (10 ^ 400)) = Inl OverflowError"
proof -
  have "(2::real) ^ (3 * 400) \<le> 10 ^ 400" by (rule two_le_ten_pow)
  moreover have "(2::real) ^ 1024 \<le> 2 ^ (3 * 400)" by (intro power_increasing) simp_all
  ultimately have "(2::real) ^ 1024 \<le> 10 ^ 400" by linarith
  then have "(2::real) powi 1024 \<le> of_int (10 ^ 400)" by simp
  then have "fin (of_int (10 ^ 400)) = PInf" by (rule fin_PInf)
  then show ?thesis by (simp add: finite_or_raise_def del: of_int_power)
qed

lemma ordinary_float_int:
  assumes "\<bar>n\<bar> < 2 ^ 53"
  shows "ordinary (PyFloat (Fin (of_int n)))"
proof -
  have "(of_int n :: real) = of_int n * 2 powi 0" by simp
  then have d: "is_double (of_int n)"
    unfolding is_double_def using assms by (intro exI[of _ n] exI[of _ 0]) simp
  have "\<bar>of_int n :: real\<bar> \<le> of_int (2 ^ 53)" using assms by (simp only: of_int_abs[symmetric] of_int_le_iff)
  moreover have "(of_int (2 ^ 53) :: real) = 2 powi 53" by simp
  moreover have "(2::real) powi 53 \<le> 2 powi 1000" by (simp only: pow2_le_iff)
  ultimately have "\<bar>of_int n :: real\<bar> \<le> 2 powi 1000" by linarith
  with d show ?thesis by simp
qed




lemma update_ratings_unconvertible:
  assumes "nadd a (PyFloat wc) = Inl OverflowError"
    and "calculate_elo_change c_pow a a (PyInt 32) = Inr (wc, lc)"
  shows "update_ratings c_pow (two_items a a) ''t'' ''X'' ''Y'' = Inl OverflowError"
  unfolding update_ratings_eq[OF load_level(1)]
  by (simp add: assms apply_outcome_distinct del: nadd.simps)

text \<open>
  C8, as the claim has it, fails: in the theme whose items \<^verbatim>\<open>X\<close> and \<^verbatim>\<open>Y\<close> are both
  rated \<open>10 ^ 400\<close>, an integer as \<^verbatim>\<open>json.load\<close> reads it from a rating file, both items
  have a record, the two changes are 16.0 and -16.0 whatever the C library is, and
  \<^verbatim>\<open>ratings[winner]["rating"] += winner_change\<close> raises \<^verbatim>\<open>OverflowError\<close>: the integer
  is too large to convert to a float.
\<close>

theorem update_ratings_raises_huge_rating:
  "load_ratings huge_store ''t'' =
     Inr [''X'' \<mapsto> (new_record ''d1'')\<lparr>rating := PyInt (10 ^ 400)\<rparr>,
          ''Y'' \<mapsto> (new_record ''d2'')\<lparr>rating := PyInt (10 ^ 400)\<rparr>] \<and>
   (\<forall>c_pow. calculate_elo_change c_pow (PyInt (10 ^ 400)) (PyInt (10 ^ 400)) (PyInt 32) =
      Inr (Fin 16, Fin (- 16))) \<and>
   nadd (PyInt (10 ^ 400)) (PyFloat (Fin 16)) = Inl OverflowError \<and>
   (\<forall>c_pow. update_ratings c_pow huge_store ''t'' ''X'' ''Y'' = Inl OverflowError)"
proof -
  have l: "load_ratings huge_store ''t'' =
     Inr [''X'' \<mapsto> (new_record ''d1'')\<lparr>rating := PyInt (10 ^ 400)\<rparr>,
          ''Y'' \<mapsto> (new_record ''d2'')\<lparr>rating := PyInt (10 ^ 400)\<rparr>]"
    unfolding huge_store_def by (rule load_level)
  have n: "nadd (PyInt (10 ^ 400)) (PyFloat c) = Inl OverflowError" for c
    unfolding nadd_float huge_int_overflows by simp
  have "update_ratings c_pow huge_store ''t'' ''X'' ''Y'' = Inl OverflowError" for c_pow
    unfolding huge_store_def
    by (rule update_ratings_unconvertible[OF n elo_change_equal_ints])
  with l n show ?thesis using elo_change_equal_ints by blast
qed

text \<open>
  C8, amended. On a readable rating table, \<^verbatim>\<open>update_ratings\<close> raises \<^verbatim>\<open>KeyError\<close> for a
  winner without a record, and for a loser without a record when the winner has one; it
  does not skip the outcome and writes nothing. When both items have a record and the C
  library is within one unit in the last place, the only exception it can raise is
  \<^verbatim>\<open>OverflowError\<close>; with ordinary ratings it returns when they are at most 122800 apart
  and raises \<^verbatim>\<open>OverflowError\<close> when they are at least 123600 apart.
\<close>

theorem update_ratings_missing_or_overflow:
  assumes "load_ratings st theme = Inr r"
  shows "(r winner = None \<longrightarrow>
            update_ratings c_pow st theme winner loser = Inl (KeyError winner)) \<and>
         (r winner \<noteq> None \<and> r loser = None \<longrightarrow>
            update_ratings c_pow st theme winner loser = Inl (KeyError loser)) \<and>
         (\<forall>w l. r winner = Some w \<and> r loser = Some l \<and> pow_accurate c_pow \<longrightarrow>
            (\<forall>e. update_ratings c_pow st theme winner loser = Inl e \<longrightarrow> e = OverflowError) \<and>
            (ordinary (rating w) \<and> ordinary (rating l) \<and>
             \<bar>val (rating w) - val (rating l)\<bar> \<le> 122800 \<longrightarrow>
               (\<exists>st'. update_ratings c_pow st theme winner loser = Inr st')) \<and>
            (ordinary (rating w) \<and> ordinary (rating l) \<and>
             123600 \<le> \<bar>val (rating w) - val (rating l)\<bar> \<longrightarrow>
               update_ratings c_pow st theme winner loser = Inl OverflowError))"
proof (intro conjI impI allI)
  assume "r winner = None"
  then show "update_ratings c_pow st theme winner loser = Inl (KeyError winner)"
    by (simp add: update_ratings_eq[OF assms])
next
  assume "r winner \<noteq> None \<and> r loser = None"
  then show "update_ratings c_pow st theme winner loser = Inl (KeyError loser)"
    by (auto simp: update_ratings_eq[OF assms])
next
  fix w l e
  assume "r winner = Some w \<and> r loser = Some l \<and> pow_accurate c_pow"
    and "update_ratings c_pow st theme winner loser = Inl e"
  then show "e = OverflowError"
    using update_ratings_error[OF assms] by blast
next
  fix w l
  assume "r winner = Some w \<and> r loser = Some l \<and> pow_accurate c_pow"
    and "ordinary (rating w) \<and> ordinary (rating l) \<and>
         \<bar>val (rating w) - val (rating l)\<bar> \<le> 122800"
  then show "\<exists>st'. update_ratings c_pow st theme winner loser = Inr st'"
    using update_ratings_returns[OF assms] by blast
next
  fix w l
  assume "r winner = Some w \<and> r loser = Some l \<and> pow_accurate c_pow"
    and "ordinary (rating w) \<and> ordinary (rating l) \<and>
         123600 \<le> \<bar>val (rating w) - val (rating l)\<bar>"
  then show "update_ratings c_pow st theme winner loser = Inl OverflowError"
    using update_ratings_far_apart[OF assms] by blast
qed

theorem update_ratings_missing_or_overflow_witness:
  "load_ratings level_store ''t'' =
     Inr [''X'' \<mapsto> new_record ''d1'', ''Y'' \<mapsto> new_record ''d2''] \<and>
   update_ratings rounded_pow level_store ''t'' ''Z'' ''X'' = Inl (KeyError ''Z'') \<and>
   update_ratings rounded_pow level_store ''t'' ''X'' ''Z'' = Inl (KeyError ''Z'') \<and>
   pow_accurate rounded_pow \<and> ordinary (PyInt 1000) \<and>
   \<bar>val (PyInt 1000) - val (PyInt 1000)\<bar> \<le> 122800 \<and>
   (\<exists>st'. update_ratings rounded_pow level_store ''t'' ''X'' ''Y'' = Inr st') \<and>
   load_ratings far_store ''t'' =
     Inr [''X'' \<mapsto> (new_record ''d1'')\<lparr>rating := PyFloat (Fin 200000)\<rparr>,
          ''Y'' \<mapsto> (new_record ''d2'')\<lparr>rating := PyFloat (Fin 0)\<rparr>] \<and>
   ordinary (PyFloat (Fin 200000)) \<and> ordinary (PyFloat (Fin 0)) \<and>
   123600 \<le> \<bar>val (PyFloat (Fin 200000)) - val (PyFloat (Fin 0))\<bar> \<and>
   update_ratings rounded_pow far_store ''t'' ''Y'' ''X'' = Inl OverflowError"
proof -
  have 1: "load_ratings level_store ''t'' =
     Inr [''X'' \<mapsto> new_record ''d1'', ''Y'' \<mapsto> new_record ''d2'']"
    by (simp add: level_store_def load_level new_record_def)
  have 2: "load_ratings far_store ''t'' =
     Inr [''X'' \<mapsto> (new_record ''d1'')\<lparr>rating := PyFloat (Fin 200000)\<rparr>,
          ''Y'' \<mapsto> (new_record ''d2'')\<lparr>rating := PyFloat (Fin 0)\<rparr>]"
    unfolding far_store_def by (rule load_level)
  have 3: "ordinary (PyInt 1000)" by simp
  have 4: "\<bar>val (PyInt 1000) - val (PyInt 1000)\<bar> \<le> 122800" by simp
  have 5: "ordinary (PyFloat (Fin 200000))" "ordinary (PyFloat (Fin 0))"
    using ordinary_float_int[of 200000] ordinary_float_int[of 0] by simp_all
  have 6: "123600 \<le> \<bar>val (PyFloat (Fin 200000)) - val (PyFloat (Fin 0))\<bar>" by simp
  have 7: "rating (new_record ''d1'') = PyInt 1000" "rating (new_record ''d2'') = PyInt 1000"
    by (simp_all add: new_record_def)
  have a: "update_ratings rounded_pow level_store ''t'' ''Z'' ''X'' = Inl (KeyError ''Z'')"
    using update_ratings_missing_or_overflow[OF 1, of "''Z''" rounded_pow "''X''"] by simp
  have b: "update_ratings rounded_pow level_store ''t'' ''X'' ''Z'' = Inl (KeyError ''Z'')"
    using update_ratings_missing_or_overflow[OF 1, of "''X''" rounded_pow "''Z''"] by simp
  have c: "\<exists>st'. update_ratings rounded_pow level_store ''t'' ''X'' ''Y'' = Inr st'"
    using update_ratings_missing_or_overflow[OF 1, of "''X''" rounded_pow "''Y''"]
      rounded_pow_accurate 3 4
    by (simp add: 7)
  have d: "update_ratings rounded_pow far_store ''t'' ''Y'' ''X'' = Inl OverflowError"
    using update_ratings_missing_or_overflow[OF 2, of "''Y''" rounded_pow "''X''"]
      rounded_pow_accurate 5 6
    by simp
  show ?thesis using 1 2 3 4 5 6 a b c d rounded_pow_accurate by blast
qed

section \<open>Signs and tolerance of the two changes\<close>

lemma exact_changes_cancel:
  fixes a b :: real
  shows "32 * (1 - 1 / (1 + 10 powr ((b - a) / 400))) +
         32 * (0 - 1 / (1 + 10 powr ((a - b) / 400))) = 0"
proof -
  define t :: real where "t = 10 powr ((b - a) / 400)"
  have t: "0 < t" by (simp add: t_def)
  have "(a - b) / 400 = - ((b - a) / 400)" by (subst minus_divide_left) simp
  then have r: "10 powr ((a - b) / 400) = 1 / t"
    by (simp only: powr_minus t_def inverse_eq_divide)
  have "32 * (1 - 1 / (1 + t)) + 32 * (0 - 1 / (1 + 1 / t)) = 0"
    using t by (simp add: field_simps)
  then show ?thesis by (simp only: r t_def[symmetric])
qed

text \<open>
  C3, as the claim has it, fails: for the ratings 8000.0 and 0.0 \<^verbatim>\<open>calculate_elo_change\<close>
  returns the winner's change 0.0, which is not greater than 0. \<^verbatim>\<open>math.pow(10, -20.0)\<close> is
  less than half the distance from 1 to the next float, so \<^verbatim>\<open>1 + math.pow(10, -20.0)\<close> is
  1, the winner's expected score is 1 and the change is \<^verbatim>\<open>32 * (1 - 1.0)\<close>.
\<close>

theorem winner_change_rounds_to_zero:
  "(\<exists>ld. calculate_elo_change rounded_pow (PyFloat (Fin 8000)) (PyFloat (Fin 0)) (PyInt 32) =
      Inr (Fin 0, ld)) \<and>
   \<not> flt (Fin 0) (Fin 0)"
proof -
  have o: "ordinary (PyFloat (Fin 8000))" "ordinary (PyFloat (Fin 0))"
    using ordinary_float_int[of 8000] ordinary_float_int[of 0] by simp_all
  have g: "\<bar>val (PyFloat (Fin 8000)) - val (PyFloat (Fin 0))\<bar> \<le> 122800" by simp
  from elo_change_returns[OF rounded_pow_accurate o g] obtain wd ld where
    c: "calculate_elo_change rounded_pow (PyFloat (Fin 8000)) (PyFloat (Fin 0)) (PyInt 32) =
      Inr (wd, ld)" by blast
  from elo_change_ordinary[OF rounded_pow_accurate o c] have "wd = Fin 0" by auto
  with c show ?thesis by simp
qed

text \<open>
  C3, amended. Let the C library be within one unit in the last place and the ratings A of
  the winner and B of the loser be ordinary. Whenever \<^verbatim>\<open>calculate_elo_change\<close> (with
  k = 32) returns, the two changes are finite floats, the winner's is at least 0 and at most
  32, the loser's is negative and at least -32, and their sum is at most \<open>2 powi - 45\<close> in
  magnitude; the winner's change is positive when A is at most 6000 above B, and it is 0.0
  when A is at least 6400 above B. The call returns when the ratings are at most 122800
  apart, raises \<^verbatim>\<open>OverflowError\<close> when they are at least 123600 apart, and raises no other
  exception. In real arithmetic the two changes add up to exactly 0.
\<close>

theorem elo_change_signs_and_tolerance:
  assumes "pow_accurate c_pow" and "ordinary a" and "ordinary b"
  shows "(\<forall>wd ld. calculate_elo_change c_pow a b (PyInt 32) = Inr (wd, ld) \<longrightarrow>
            (\<exists>x z. wd = Fin x \<and> ld = Fin z \<and> 0 \<le> x \<and> x \<le> 32 \<and> - 32 \<le> z \<and> z < 0 \<and>
               \<bar>x + z\<bar> \<le> 2 powi (- 45) \<and>
               (val a - val b \<le> 6000 \<longrightarrow> 0 < x) \<and>
               (6400 \<le> val a - val b \<longrightarrow> x = 0))) \<and>
         (\<bar>val a - val b\<bar> \<le> 122800 \<longrightarrow>
            (\<exists>wd ld. calculate_elo_change c_pow a b (PyInt 32) = Inr (wd, ld))) \<and>
         (123600 \<le> \<bar>val a - val b\<bar> \<longrightarrow>
            calculate_elo_change c_pow a b (PyInt 32) = Inl OverflowError) \<and>
         (\<forall>e. calculate_elo_change c_pow a b (PyInt 32) = Inl e \<longrightarrow> e = OverflowError) \<and>
         32 * (1 - 1 / (1 + 10 powr ((val b - val a) / 400))) +
           32 * (0 - 1 / (1 + 10 powr ((val a - val b) / 400))) = 0"
  using elo_change_ordinary[OF assms] elo_change_returns[OF assms]
    elo_change_overflows[OF assms] calculate_elo_change_error[OF assms(1), of a b]
    exact_changes_cancel[of "val b" "val a"]
  by blast

theorem elo_change_signs_and_tolerance_witness:
  "pow_accurate rounded_pow \<and> ordinary (PyInt 1000) \<and> ordinary (PyInt 9000) \<and>
   ordinary (PyInt 200000) \<and>
   calculate_elo_change rounded_pow (PyInt 1000) (PyInt 1000) (PyInt 32) =
     Inr (Fin 16, Fin (- 16)) \<and>
   val (PyInt 1000) - val (PyInt 1000) \<le> 6000 \<and> (0::real) < 16 \<and> (- 16 :: real) < 0 \<and>
   \<bar>16 + - 16 :: real\<bar> \<le> 2 powi (- 45) \<and>
   6400 \<le> val (PyInt 9000) - val (PyInt 1000) \<and>
   \<bar>val (PyInt 9000) - val (PyInt 1000)\<bar> \<le> 122800 \<and>
   (\<exists>z. calculate_elo_change rounded_pow (PyInt 9000) (PyInt 1000) (PyInt 32) =
      Inr (Fin 0, Fin z) \<and> - 32 \<le> z \<and> z < 0 \<and> \<bar>0 + z\<bar> \<le> 2 powi (- 45)) \<and>
   123600 \<le> \<bar>val (PyInt 1000) - val (PyInt 200000)\<bar> \<and>
   calculate_elo_change rounded_pow (PyInt 1000) (PyInt 200000) (PyInt 32) = Inl OverflowError"
proof -
  note p = rounded_pow_accurate
  have o: "ordinary (PyInt 1000)" "ordinary (PyInt 9000)" "ordinary (PyInt 200000)"
    by simp_all
  have e: "exact (PyInt 1000) = Fin 1000" by simp
  note level = elo_change_level[OF e e, of rounded_pow]
  have g1: "val (PyInt 1000) - val (PyInt 1000) \<le> 6000" by simp
  have g2: "6400 \<le> val (PyInt 9000) - val (PyInt 1000)" by simp
  have g3: "\<bar>val (PyInt 9000) - val (PyInt 1000)\<bar> \<le> 122800" by simp
  have g4: "123600 \<le> \<bar>val (PyInt 1000) - val (PyInt 200000)\<bar>" by simp
  from elo_change_signs_and_tolerance[OF p o(1) o(1)] level g1
  have a: "(0::real) < 16 \<and> (- 16 :: real) < 0 \<and> \<bar>16 + - 16 :: real\<bar> \<le> 2 powi (- 45)"
    by simp
  note t = elo_change_signs_and_tolerance[OF p o(2) o(1)]
  from t g3 obtain wd ld where
    c: "calculate_elo_change rounded_pow (PyInt 9000) (PyInt 1000) (PyInt 32) = Inr (wd, ld)"
    by blast
  with t g2 have b: "\<exists>z. calculate_elo_change rounded_pow (PyInt 9000) (PyInt 1000) (PyInt 32) =
      Inr (Fin 0, Fin z) \<and> - 32 \<le> z \<and> z < 0 \<and> \<bar>0 + z\<bar> \<le> 2 powi (- 45)"
    by (metis (no_types, lifting))
  from elo_change_signs_and_tolerance[OF p o(1) o(3)] g4
  have d: "calculate_elo_change rounded_pow (PyInt 1000) (PyInt 200000) (PyInt 32) =
      Inl OverflowError"
    by blast
  show ?thesis using p o level g1 g2 g3 g4 a b d by blast
qed
section \<open>Saving a file\<close>




end
